theory Spec2Isabelle
  imports Complex_Main
begin

section \<open>Webcam heart-rate monitor: the signal pipeline of App.tsx\<close>

text \<open>
  The embedding follows the revision of \<^verbatim>\<open>App.tsx\<close> that has the quality gate, the
  low-pass filter and the adaptive chart range (333 lines).

  JavaScript numbers are modelled as \<^typ>\<open>real\<close>: every arithmetic step is exact, and
  \<^verbatim>\<open>NaN\<close>, the infinities and rounding are outside the model. Array indices and
  lengths are \<^typ>\<open>nat\<close>; the peak index, which uses \<^verbatim>\<open>-1\<close> as "none", is
  \<^typ>\<open>int\<close>.
\<close>

subsection \<open>Configuration constants (lines 6-16)\<close>

definition FPS :: nat where
  "FPS = 30"

definition WINDOW_SECONDS :: nat where
  "WINDOW_SECONDS = 20"

definition BUFFER_SIZE :: nat where
  "BUFFER_SIZE = FPS * WINDOW_SECONDS"

definition MIN_BPM :: real where
  "MIN_BPM = 45"

definition MAX_BPM :: real where
  "MAX_BPM = 200"

definition LOW_PASS_ALPHA :: real where
  "LOW_PASS_ALPHA = 0.5"

definition MOTION_THRESHOLD :: real where
  "MOTION_THRESHOLD = 4.0"

definition COVERAGE_STD_DEV_THRESHOLD :: real where
  "COVERAGE_STD_DEV_THRESHOLD = 16.0"

subsection \<open>Array primitives of the host language\<close>

text \<open>
  \<^verbatim>\<open>a.slice(s, e)\<close> for indices \<open>0 \<le> s\<close>, \<open>0 \<le> e\<close>: the elements at positions
  \<open>s, ..., e - 1\<close> that exist.
\<close>

definition slice :: "'a list \<Rightarrow> nat \<Rightarrow> nat \<Rightarrow> 'a list" where
  "slice xs s e = take (e - s) (drop s xs)"

text \<open>
  \<^verbatim>\<open>a[i] = v\<close>: overwrites position \<open>i\<close> when it exists and extends the array by one
  when \<open>i\<close> is its length. (An index beyond the length would leave holes; the loops
  below write positions \<open>0, 1, 2, ...\<close> in order, so that never happens.)
\<close>

definition arrayAssign :: "'a list \<Rightarrow> nat \<Rightarrow> 'a \<Rightarrow> 'a list" where
  "arrayAssign xs i v = (if i < length xs then xs[i := v] else xs @ [v])"

text \<open>
  \<^verbatim>\<open>Math.min(...a)\<close> and \<^verbatim>\<open>Math.max(...a)\<close>, a left-to-right scan. On the empty
  array the host language answers with an infinity, which \<^typ>\<open>real\<close> does not have:
  the result is \<open>None\<close> there.
\<close>

definition mathMin :: "real list \<Rightarrow> real option" where
  "mathMin xs = (case xs of [] \<Rightarrow> None | y # ys \<Rightarrow> Some (foldl min y ys))"

definition mathMax :: "real list \<Rightarrow> real option" where
  "mathMax xs = (case xs of [] \<Rightarrow> None | y # ys \<Rightarrow> Some (foldl max y ys))"

subsection \<open>Detrender (lines 24-34)\<close>

definition movingAverageAt :: "real list \<Rightarrow> nat \<Rightarrow> real" where
  "movingAverageAt signal i =
     (let start = max 0 (int i - \<lfloor>real FPS / 2\<rfloor>);
          stop = min (int (length signal) - 1) (int i + \<lfloor>real FPS / 2\<rfloor>);
          subSignal = slice signal (nat start) (nat (stop + 1));
          avg = foldl (\<lambda>a b. a + b) 0 subSignal / real (length subSignal)
      in avg)"

definition detrendSignal :: "real list \<Rightarrow> real list" where
  "detrendSignal signal =
     (if length signal < 3 then signal
      else
        (let movingAverage = map (movingAverageAt signal) [0..<length signal]
         in map (\<lambda>(val, i). val - movingAverage ! i) (zip signal [0..<length signal])))"

subsection \<open>Smoothing filter (lines 40-47)\<close>

function lowPassLoop :: "real list \<Rightarrow> real \<Rightarrow> nat \<Rightarrow> real list \<Rightarrow> real list" where
  "lowPassLoop signal alpha i filteredSignal =
     (if i < length signal
      then lowPassLoop signal alpha (i + 1)
             (arrayAssign filteredSignal i
                (alpha * signal ! i + (1 - alpha) * filteredSignal ! (i - 1)))
      else filteredSignal)"
  by pat_completeness auto
termination
  by (relation "measure (\<lambda>(signal, alpha, i, filteredSignal). length signal - i)") auto

declare lowPassLoop.simps [simp del]

definition lowPassFilter :: "real list \<Rightarrow> real \<Rightarrow> real list" where
  "lowPassFilter signal alpha =
     (if length signal = 0 then [] else lowPassLoop signal alpha 1 [signal ! 0])"

subsection \<open>Spectral estimator (lines 54-72)\<close>

definition hanning :: "real list \<Rightarrow> real list" where
  "hanning signal =
     (let N = length signal
      in map (\<lambda>(val, i). val * (0.5 * (1 - cos ((2 * pi * real i) / (real N - 1)))))
           (zip signal [0..<N]))"

function dftInner :: "real list \<Rightarrow> nat \<Rightarrow> nat \<Rightarrow> nat \<Rightarrow> real \<times> real \<Rightarrow> real \<times> real" where
  "dftInner windowedSignal N k n (re, im) =
     (if n < N
      then
        (let angle = (2 * pi * real k * real n) / real N
         in dftInner windowedSignal N k (n + 1)
              (re + windowedSignal ! n * cos angle, im - windowedSignal ! n * sin angle))
      else (re, im))"
  by pat_completeness auto
termination
  by (relation "measure (\<lambda>(windowedSignal, N, k, n, acc). N - n)") auto

declare dftInner.simps [simp del]

function dftOuter :: "real list \<Rightarrow> nat \<Rightarrow> nat \<Rightarrow> real list \<Rightarrow> real list" where
  "dftOuter windowedSignal N k magnitudes =
     (if real k < real N / 2
      then
        (case dftInner windowedSignal N k 0 (0, 0) of
           (re, im) \<Rightarrow>
             dftOuter windowedSignal N (k + 1)
               (arrayAssign magnitudes k (sqrt (re * re + im * im) / real N)))
      else magnitudes)"
  by pat_completeness auto
termination
  by (relation "measure (\<lambda>(windowedSignal, N, k, magnitudes). N - 2 * k)") auto

declare dftOuter.simps [simp del]

definition calculateMagnitudes :: "real list \<Rightarrow> real list" where
  "calculateMagnitudes signal =
     (let N = length signal;
          magnitudes = replicate (nat \<lfloor>real N / 2\<rfloor>) 0;
          windowedSignal = hanning signal
      in dftOuter windowedSignal N 0 magnitudes)"

subsection \<open>Band-limited peak search (lines 166-183)\<close>

text \<open>
  \<^verbatim>\<open>magnitudes[i] > maxMagnitude\<close> is false when position \<open>i\<close> does not exist (the
  read gives \<^verbatim>\<open>undefined\<close>, and a comparison with it is false).
\<close>

function peakLoop :: "real list \<Rightarrow> int \<Rightarrow> int \<Rightarrow> int \<times> real \<Rightarrow> int \<times> real" where
  "peakLoop magnitudes i maxIndex (peakIndex, maxMagnitude) =
     (if i \<le> maxIndex
      then
        (if 0 \<le> i \<and> nat i < length magnitudes \<and> magnitudes ! nat i > maxMagnitude
         then peakLoop magnitudes (i + 1) maxIndex (i, magnitudes ! nat i)
         else peakLoop magnitudes (i + 1) maxIndex (peakIndex, maxMagnitude))
      else (peakIndex, maxMagnitude))"
  by pat_completeness auto
termination
  by (relation "measure (\<lambda>(magnitudes, i, maxIndex, acc). nat (maxIndex + 1 - i))") auto

declare peakLoop.simps [simp del]

definition findPeakIndex :: "real list \<Rightarrow> int" where
  "findPeakIndex filtered =
     (let magnitudes = calculateMagnitudes filtered;
          samples = length filtered;
          sampleRate = FPS;
          minFreq = MIN_BPM / 60;
          maxFreq = MAX_BPM / 60;
          minIndex = \<lfloor>(minFreq * real samples) / real sampleRate\<rfloor>;
          maxIndex = \<lceil>(maxFreq * real samples) / real sampleRate\<rceil>
      in fst (peakLoop magnitudes minIndex maxIndex (- 1, - 1)))"

subsection \<open>Rate smoother (lines 185-189)\<close>

definition updateHeartRate :: "real \<Rightarrow> int \<Rightarrow> nat \<Rightarrow> real" where
  "updateHeartRate prev peakIndex samples =
     (if peakIndex \<noteq> - 1
      then
        (let sampleRate = FPS;
             peakFrequency = (real_of_int peakIndex * real sampleRate) / real samples;
             bpm = peakFrequency * 60
         in (prev * 0.9) + (bpm * 0.1))
      else prev)"

subsection \<open>Display scaler (lines 195-208)\<close>

datatype y_domain = Auto | Bounded real real

text \<open>
  \<^verbatim>\<open>(signalMax - signalMin) * 0.1 || 1\<close>: the right operand is taken when the left
  one is zero.
\<close>

definition updateYDomain :: "y_domain \<Rightarrow> real \<Rightarrow> real \<Rightarrow> y_domain" where
  "updateYDomain prevDomain signalMin signalMax =
     (let signalPadding =
            (if (signalMax - signalMin) * 0.1 = 0 then 1 else (signalMax - signalMin) * 0.1)
      in case prevDomain of
           Auto \<Rightarrow> Bounded (signalMin - signalPadding) (signalMax + signalPadding)
         | Bounded lo hi \<Rightarrow>
             (let newMin = lo * 0.98 + (signalMin - signalPadding) * 0.02;
                  newMax = hi * 0.98 + (signalMax + signalPadding) * 0.02
              in Bounded newMin newMax))"

subsection \<open>Session state and the frame pass (lines 78-212)\<close>

text \<open>
  The status line: \<open>Ready\<close>, \<open>Initializing camera...\<close>, \<open>Please cover the camera
  lens.\<close>, \<open>Motion detected. Please hold still.\<close>, \<open>Calibrating... (p%)\<close> and
  \<open>Processing...\<close>.
\<close>

datatype status =
    Ready
  | InitializingCamera
  | PleaseCoverLens
  | MotionDetected
  | Calibrating int
  | Processing

record state =
  isMonitoring :: bool
  heartRate :: real
  chartData :: "(nat \<times> real) list"
  status :: status
  error :: "string option"
  yDomain :: y_domain
  dataBuffer :: "real list"
  lastRedAverage :: "real option"

text \<open>
  A frame as the quality gate sees it: the mean of the red channel over the pixels and
  its population standard deviation (computed at lines 101-119 from the pixel buffer).
\<close>

record frame =
  redAverage :: real
  redStdDev :: real

definition initialState :: state where
  "initialState =
     \<lparr>isMonitoring = False, heartRate = 0, chartData = [], status = Ready, error = None,
      yDomain = Auto, dataBuffer = [], lastRedAverage = None\<rparr>"

text \<open>
  The full-window branch (lines 159-208), on the state that already holds the new buffer.
  The branch is entered with \<open>BUFFER_SIZE\<close> samples, so the minimum and the maximum
  exist; on an empty signal, where they do not, the model leaves the range as it is.
\<close>

definition processWindow :: "state \<Rightarrow> state" where
  "processWindow s =
     (let detrended = detrendSignal (dataBuffer s);
          filtered = lowPassFilter detrended LOW_PASS_ALPHA;
          samples = length filtered;
          peakIndex = findPeakIndex filtered;
          newChartData = map (\<lambda>(value, index). (index, value)) (zip filtered [0..<length filtered])
      in case (mathMin filtered, mathMax filtered) of
           (Some signalMin, Some signalMax) \<Rightarrow>
             s\<lparr>status := Processing,
               heartRate := updateHeartRate (heartRate s) peakIndex samples,
               chartData := newChartData,
               yDomain := updateYDomain (yDomain s) signalMin signalMax\<rparr>
         | _ \<Rightarrow>
             s\<lparr>status := Processing,
               heartRate := updateHeartRate (heartRate s) peakIndex samples,
               chartData := newChartData\<rparr>)"

definition processFrame :: "state \<Rightarrow> frame \<Rightarrow> state" where
  "processFrame s f =
     (if redStdDev f > COVERAGE_STD_DEV_THRESHOLD
      then
        (if length (dataBuffer s) > 0
         then s\<lparr>status := PleaseCoverLens, dataBuffer := [], heartRate := 0,
                chartData := [], yDomain := Auto\<rparr>
         else s\<lparr>status := PleaseCoverLens\<rparr>)
      else if (case lastRedAverage s of
                 None \<Rightarrow> False
               | Some prev \<Rightarrow> \<bar>redAverage f - prev\<bar> > MOTION_THRESHOLD)
      then s\<lparr>status := MotionDetected, dataBuffer := [], heartRate := 0, chartData := [],
             yDomain := Auto, lastRedAverage := Some (redAverage f)\<rparr>
      else
        (let pushed = dataBuffer s @ [redAverage f];
             buffer = (if length pushed > BUFFER_SIZE then tl pushed else pushed);
             s1 = s\<lparr>lastRedAverage := Some (redAverage f), dataBuffer := buffer\<rparr>
         in if length buffer < BUFFER_SIZE
            then s1\<lparr>status :=
                     Calibrating (round ((real (length buffer) / real BUFFER_SIZE) * 100))\<rparr>
            else processWindow s1))"

subsection \<open>Starting and stopping a session (lines 214-259)\<close>

text \<open>\<open>granted\<close> says whether the camera stream was obtained.\<close>

definition startMonitoring :: "state \<Rightarrow> bool \<Rightarrow> state" where
  "startMonitoring s granted =
     (if isMonitoring s then s
      else
        (let s1 = s\<lparr>error := None, status := InitializingCamera, lastRedAverage := None\<rparr>
         in if granted then s1\<lparr>isMonitoring := True\<rparr>
            else s1\<lparr>error := Some ''Camera access was denied. Please allow camera access in your browser settings and refresh the page.'',
                    status := Ready\<rparr>))"

definition stopMonitoring :: "state \<Rightarrow> state" where
  "stopMonitoring s =
     (if \<not> isMonitoring s then s
      else s\<lparr>isMonitoring := False, heartRate := 0, chartData := [], status := Ready,
             dataBuffer := [], lastRedAverage := None, yDomain := Auto\<rparr>)"

text \<open>
  What can happen to a session: a frame pass on a decoded frame, a pass that returns at
  once because no frame is available (lines 94-99), a start request and a stop request.
\<close>

datatype event = FramePass frame | FrameSkipped | Start bool | Stop

fun step :: "state \<Rightarrow> event \<Rightarrow> state" where
  "step s (FramePass f) = processFrame s f"
| "step s FrameSkipped = s"
| "step s (Start granted) = startMonitoring s granted"
| "step s Stop = stopMonitoring s"

definition run :: "event list \<Rightarrow> state" where
  "run events = foldl step initialState events"

subsection \<open>Notions used to state the properties\<close>

text \<open>
  The arithmetic mean of \<open>signal\<close> over the index window \<open>[lo, hi]\<close>, as the
  specification words the detrender.
\<close>

definition windowMean :: "real list \<Rightarrow> int \<Rightarrow> int \<Rightarrow> real" where
  "windowMean signal lo hi =
     sum_list (map (\<lambda>j. signal ! j) [nat lo..<nat hi + 1]) / real (length [nat lo..<nat hi + 1])"

text \<open>
  The magnitude of frequency bin \<open>k\<close> as the specification words it, over the windowed
  signal \<open>w\<close> of length \<open>N\<close>.
\<close>

definition binMagnitude :: "real list \<Rightarrow> nat \<Rightarrow> nat \<Rightarrow> real" where
  "binMagnitude w N k =
     (let re = (\<Sum>n = 0..<N. w ! n * cos ((2 * pi * real k * real n) / real N));
          im = - (\<Sum>n = 0..<N. w ! n * sin ((2 * pi * real k * real n) / real N))
      in sqrt (re\<^sup>2 + im\<^sup>2) / real N)"

text \<open>What one turn of the outer loop of \<open>calculateMagnitudes\<close> stores at position \<open>k\<close>.\<close>

definition magnitudeAt :: "real list \<Rightarrow> nat \<Rightarrow> nat \<Rightarrow> real" where
  "magnitudeAt w N k =
     (case dftInner w N k 0 (0, 0) of (re, im) \<Rightarrow> sqrt (re * re + im * im) / real N)"

text \<open>
  A frame is accepted in state \<open>s\<close> when neither check of the quality gate rejects it:
  the two conditions of \<open>processFrame\<close>, negated.
\<close>

definition accepted :: "state \<Rightarrow> frame \<Rightarrow> bool" where
  "accepted s f =
     (\<not> redStdDev f > COVERAGE_STD_DEV_THRESHOLD \<and>
      \<not> (case lastRedAverage s of
            None \<Rightarrow> False
          | Some prev \<Rightarrow> \<bar>redAverage f - prev\<bar> > MOTION_THRESHOLD))"

text \<open>A sequence of frames each of which is accepted in the state the earlier ones lead to.\<close>

fun allAccepted :: "state \<Rightarrow> frame list \<Rightarrow> bool" where
  "allAccepted s [] = True"
| "allAccepted s (f # fs) = (accepted s f \<and> allAccepted (processFrame s f) fs)"

text \<open>
  The invariant of the sample window: it never holds more than \<open>BUFFER_SIZE\<close> samples,
  and below that size nothing has been computed from it.
\<close>

definition windowInv :: "state \<Rightarrow> bool" where
  "windowInv s =
     (length (dataBuffer s) \<le> BUFFER_SIZE \<and>
      (length (dataBuffer s) < BUFFER_SIZE \<longrightarrow>
         heartRate s = 0 \<and> chartData s = [] \<and> yDomain s = Auto))"

text \<open>
  The peak search in the specification's words. A band index is a position of the band
  \<open>[lo, hi]\<close> that exists in the spectrum. The winning bin is a band index whose
  magnitude is the largest of the band, the lowest such index on ties. No peak is
  reported when no band index holds a magnitude above the initial maximum \<open>-1\<close>.
\<close>

definition bandIndex :: "real list \<Rightarrow> int \<Rightarrow> int \<Rightarrow> int \<Rightarrow> bool" where
  "bandIndex magnitudes lo hi j = (lo \<le> j \<and> j \<le> hi \<and> 0 \<le> j \<and> nat j < length magnitudes)"

definition winningBin :: "real list \<Rightarrow> int \<Rightarrow> int \<Rightarrow> int \<Rightarrow> bool" where
  "winningBin magnitudes lo hi p =
     (bandIndex magnitudes lo hi p \<and> magnitudes ! nat p > - 1 \<and>
      (\<forall>j\<in>{lo..hi}. bandIndex magnitudes lo hi j \<longrightarrow> magnitudes ! nat j \<le> magnitudes ! nat p) \<and>
      (\<forall>j\<in>{lo..<p}. bandIndex magnitudes lo hi j \<longrightarrow> magnitudes ! nat j < magnitudes ! nat p))"

definition noPeak :: "real list \<Rightarrow> int \<Rightarrow> int \<Rightarrow> bool" where
  "noPeak magnitudes lo hi =
     (\<forall>j\<in>{lo..hi}. bandIndex magnitudes lo hi j \<longrightarrow> \<not> magnitudes ! nat j > - 1)"

text \<open>The frame of the flat-signal scenario.\<close>

abbreviation flatFrame :: frame where
  "flatFrame \<equiv> \<lparr>redAverage = 100, redStdDev = 2\<rparr>"

section \<open>Properties of the signal-processing helpers\<close>

subsection \<open>Detrender\<close>

lemma BUFFER_SIZE_eq: "BUFFER_SIZE = 600"
  by (simp add: BUFFER_SIZE_def FPS_def WINDOW_SECONDS_def)

lemma foldl_add_sum_list: "foldl (\<lambda>a b. a + b) (a::real) xs = a + sum_list xs"
  by (induction xs arbitrary: a) simp_all

lemma slice_map_nth:
  assumes "s \<le> e" "e \<le> length xs"
  shows "slice xs s e = map (\<lambda>j. xs ! j) [s..<e]"
proof (rule nth_equalityI)
  show "length (slice xs s e) = length (map (\<lambda>j. xs ! j) [s..<e])"
    using assms by (simp add: slice_def)
next
  fix i assume "i < length (slice xs s e)"
  then have "i < e - s" using assms by (simp add: slice_def)
  then show "slice xs s e ! i = map (\<lambda>j. xs ! j) [s..<e] ! i"
    using assms by (simp add: slice_def)
qed

lemma movingAverageAt_windowMean:
  assumes "i < length signal"
  shows "movingAverageAt signal i =
         windowMean signal (max 0 (int i - 15)) (min (int (length signal) - 1) (int i + 15))"
proof -
  define lo where "lo = nat (max 0 (int i - 15))"
  define hi where "hi = nat (min (int (length signal) - 1) (int i + 15))"
  have lohi: "lo \<le> hi + 1" "hi + 1 \<le> length signal"
    using assms by (auto simp: lo_def hi_def)
  have hi1: "nat (min (int (length signal) - 1) (int i + 15) + 1) = hi + 1"
    using assms by (auto simp: hi_def)
  have "movingAverageAt signal i =
        foldl (\<lambda>a b. a + b) 0 (slice signal lo (hi + 1)) / real (length (slice signal lo (hi + 1)))"
    by (simp add: movingAverageAt_def FPS_def Let_def lo_def hi1)
  also have "\<dots> = sum_list (map (\<lambda>j. signal ! j) [lo..<hi + 1]) / real (length [lo..<hi + 1])"
    unfolding slice_map_nth [OF lohi] by (simp add: foldl_add_sum_list del: upt_Suc)
  finally show ?thesis
    by (simp add: windowMean_def lo_def hi_def del: upt_Suc)
qed

lemma detrendSignal_length: "length (detrendSignal signal) = length signal"
  by (simp add: detrendSignal_def Let_def)

lemma detrendSignal_nth:
  assumes "3 \<le> length signal" "i < length signal"
  shows "detrendSignal signal ! i = signal ! i - movingAverageAt signal i"
  using assms by (simp add: detrendSignal_def Let_def)

lemma windowMean_replicate:
  assumes "nat lo \<le> nat hi" "nat hi < n"
  shows "windowMean (replicate n c) lo hi = c"
proof -
  have "map (\<lambda>j. replicate n c ! j) [nat lo..<nat hi + 1] = replicate (nat hi + 1 - nat lo) c"
    using assms by (intro nth_equalityI) (simp_all del: upt_Suc)
  then show ?thesis
    using assms by (simp add: windowMean_def sum_list_replicate del: upt_Suc)
qed

lemma detrendSignal_replicate:
  assumes "3 \<le> n"
  shows "detrendSignal (replicate n c) = replicate n 0"
proof (rule nth_equalityI)
  show "length (detrendSignal (replicate n c)) = length (replicate n (0::real))"
    by (simp add: detrendSignal_length)
next
  fix i assume "i < length (detrendSignal (replicate n c))"
  then have i: "i < n" by (simp add: detrendSignal_length)
  have "windowMean (replicate n c) (max 0 (int i - 15)) (min (int n - 1) (int i + 15)) = c"
    using i by (intro windowMean_replicate) auto
  then have "movingAverageAt (replicate n c) i = c"
    using i by (simp add: movingAverageAt_windowMean)
  then show "detrendSignal (replicate n c) ! i = replicate n 0 ! i"
    using assms i by (simp add: detrendSignal_nth)
qed

subsection \<open>Smoothing filter\<close>

lemma arrayAssign_length_eq: "arrayAssign xs (length xs) v = xs @ [v]"
  by (simp add: arrayAssign_def)

lemma lowPassLoop_length:
  "1 \<le> i \<Longrightarrow> i \<le> length signal \<Longrightarrow> length filteredSignal = i \<Longrightarrow>
   length (lowPassLoop signal alpha i filteredSignal) = length signal"
proof (induction signal alpha i filteredSignal rule: lowPassLoop.induct)
  case (1 signal alpha i filteredSignal)
  show ?case
  proof (cases "i < length signal")
    case True
    then show ?thesis
      using "1.IH" [OF True] "1.prems"
      by (subst lowPassLoop.simps) (simp add: arrayAssign_def)
  next
    case False
    then show ?thesis
      using "1.prems" by (subst lowPassLoop.simps) simp
  qed
qed

lemma lowPassFilter_length: "length (lowPassFilter signal alpha) = length signal"
  by (cases signal) (simp_all add: lowPassFilter_def lowPassLoop_length)

lemma lowPassLoop_replicate:
  "1 \<le> i \<Longrightarrow> i \<le> n \<Longrightarrow>
   lowPassLoop (replicate n c) alpha i (replicate i c) = replicate n c"
proof (induction "n - i" arbitrary: i)
  case 0
  then have "i = n" by simp
  then show ?case by (subst lowPassLoop.simps) simp
next
  case (Suc d)
  then have lt: "i < n" by simp
  have keep: "alpha * c + (1 - alpha) * c = c" by (simp add: algebra_simps)
  have "lowPassLoop (replicate n c) alpha i (replicate i c) =
        lowPassLoop (replicate n c) alpha (i + 1) (replicate (i + 1) c)"
    using lt Suc.prems
    by (subst lowPassLoop.simps) (simp add: arrayAssign_def keep replicate_append_same)
  also have "\<dots> = replicate n c"
    using Suc.hyps(1) [of "i + 1"] Suc.hyps(2) lt by simp
  finally show ?case .
qed

lemma lowPassFilter_replicate: "lowPassFilter (replicate n c) alpha = replicate n c"
proof (cases n)
  case 0
  then show ?thesis by (simp add: lowPassFilter_def)
next
  case (Suc m)
  then show ?thesis
    using lowPassLoop_replicate [of 1 n c alpha] by (simp add: lowPassFilter_def)
qed

subsection \<open>Spectral estimator\<close>

lemma dftInner_sum:
  "n \<le> N \<Longrightarrow>
   dftInner w N k n (re, im) =
     (re + (\<Sum>m = n..<N. w ! m * cos ((2 * pi * real k * real m) / real N)),
      im - (\<Sum>m = n..<N. w ! m * sin ((2 * pi * real k * real m) / real N)))"
proof (induction "N - n" arbitrary: n re im)
  case 0
  then have "n = N" by simp
  then show ?case by (subst dftInner.simps) simp
next
  case (Suc d)
  then have lt: "n < N" by simp
  have split: "{n..<N} = insert n {n + 1..<N}"
    using lt by auto
  show ?case
    using Suc.hyps(1) [of "n + 1"] Suc.hyps(2) lt
    by (subst dftInner.simps) (simp add: split Let_def algebra_simps)
qed

lemma dftOuter_step:
  "real k < real N / 2 \<Longrightarrow>
   dftOuter w N k mags = dftOuter w N (k + 1) (arrayAssign mags k (magnitudeAt w N k))"
  by (subst dftOuter.simps) (simp add: magnitudeAt_def split: prod.splits)

lemma dftOuter_stop: "\<not> real k < real N / 2 \<Longrightarrow> dftOuter w N k mags = mags"
  by (subst dftOuter.simps) simp

lemma bins_iff: "real k < real N / 2 \<longleftrightarrow> k < (N + 1) div 2"
proof -
  have "real k < real N / 2 \<longleftrightarrow> 2 * k < N"
    by (simp add: field_simps) (metis of_nat_less_iff of_nat_mult of_nat_numeral mult.commute)
  then show ?thesis by auto
qed

lemma dftOuter_length:
  "k \<le> length mags \<Longrightarrow>
   length (dftOuter w N k mags) = max (length mags) ((N + 1) div 2)"
proof (induction "(N + 1) div 2 - k" arbitrary: k mags)
  case 0
  then have "\<not> real k < real N / 2" by (simp add: bins_iff)
  then show ?case using 0 by (simp add: dftOuter_stop)
next
  case (Suc d)
  then have lt: "k < (N + 1) div 2" by simp
  then have go: "real k < real N / 2" by (simp add: bins_iff)
  have "length (dftOuter w N (k + 1) (arrayAssign mags k (magnitudeAt w N k))) =
        max (length (arrayAssign mags k (magnitudeAt w N k))) ((N + 1) div 2)"
    using Suc.hyps(2) Suc.prems by (intro Suc.hyps(1)) (auto simp: arrayAssign_def)
  then show ?case
    using lt Suc.prems by (simp add: dftOuter_step [OF go] arrayAssign_def split: if_splits)
qed

lemma dftOuter_below:
  "j < k \<Longrightarrow> k \<le> length mags \<Longrightarrow> dftOuter w N k mags ! j = mags ! j"
proof (induction "(N + 1) div 2 - k" arbitrary: k mags)
  case 0
  then have "\<not> real k < real N / 2" by (simp add: bins_iff)
  then show ?case by (simp add: dftOuter_stop)
next
  case (Suc d)
  then have go: "real k < real N / 2" by (simp add: bins_iff)
  have "dftOuter w N (k + 1) (arrayAssign mags k (magnitudeAt w N k)) ! j =
        arrayAssign mags k (magnitudeAt w N k) ! j"
    using Suc.hyps(2) Suc.prems by (intro Suc.hyps(1)) (auto simp: arrayAssign_def)
  then show ?case
    using Suc.prems by (simp add: dftOuter_step [OF go] arrayAssign_def nth_append)
qed

lemma dftOuter_nth:
  "k \<le> j \<Longrightarrow> j < (N + 1) div 2 \<Longrightarrow> k \<le> length mags \<Longrightarrow>
   dftOuter w N k mags ! j = magnitudeAt w N j"
proof (induction "(N + 1) div 2 - k" arbitrary: k mags)
  case 0
  then show ?case by simp
next
  case (Suc d)
  then have go: "real k < real N / 2" by (simp add: bins_iff)
  let ?mags = "arrayAssign mags k (magnitudeAt w N k)"
  have len: "k + 1 \<le> length ?mags"
    using Suc.prems by (auto simp: arrayAssign_def)
  show ?case
  proof (cases "j = k")
    case True
    have "dftOuter w N (k + 1) ?mags ! k = ?mags ! k"
      using len by (intro dftOuter_below) simp_all
    then show ?thesis
      using True Suc.prems by (simp add: dftOuter_step [OF go] arrayAssign_def nth_append)
  next
    case False
    then have "dftOuter w N (k + 1) ?mags ! j = magnitudeAt w N j"
      using Suc.hyps(2) Suc.prems len by (intro Suc.hyps(1)) simp_all
    then show ?thesis by (simp add: dftOuter_step [OF go])
  qed
qed

lemma floor_half: "nat \<lfloor>real N / 2\<rfloor> = N div 2"
proof -
  have "\<lfloor>real N / 2\<rfloor> = int N div 2"
    using floor_divide_of_int_eq [of "int N" 2, where ?'a = real] by simp
  then show ?thesis by (simp add: nat_div_distrib)
qed

lemma calculateMagnitudes_length:
  "length (calculateMagnitudes signal) = (length signal + 1) div 2"
  by (simp add: calculateMagnitudes_def Let_def dftOuter_length floor_half max_def)

lemma hanning_length: "length (hanning signal) = length signal"
  by (simp add: hanning_def Let_def)

lemma hanning_nth:
  "n < length signal \<Longrightarrow>
   hanning signal ! n =
     signal ! n * (0.5 * (1 - cos ((2 * pi * real n) / (real (length signal) - 1))))"
  by (simp add: hanning_def Let_def)

lemma calculateMagnitudes_nth:
  "k < (length signal + 1) div 2 \<Longrightarrow>
   calculateMagnitudes signal ! k = magnitudeAt (hanning signal) (length signal) k"
  by (simp add: calculateMagnitudes_def Let_def dftOuter_nth)

lemma magnitudeAt_zero:
  "(\<And>n. n < N \<Longrightarrow> w ! n = 0) \<Longrightarrow> magnitudeAt w N k = 0"
  by (simp add: magnitudeAt_def dftInner_sum)

lemma calculateMagnitudes_zero:
  "calculateMagnitudes (replicate n 0) = replicate ((n + 1) div 2) 0"
proof (rule nth_equalityI)
  show "length (calculateMagnitudes (replicate n 0)) = length (replicate ((n + 1) div 2) (0::real))"
    by (simp add: calculateMagnitudes_length)
next
  fix k assume "k < length (calculateMagnitudes (replicate n 0))"
  then have k: "k < (n + 1) div 2" by (simp add: calculateMagnitudes_length)
  have "magnitudeAt (hanning (replicate n 0)) n k = 0"
    by (rule magnitudeAt_zero) (simp add: hanning_nth)
  then show "calculateMagnitudes (replicate n 0) ! k = replicate ((n + 1) div 2) 0 ! k"
    using k by (simp add: calculateMagnitudes_nth)
qed

lemma magnitudeAt_binMagnitude: "magnitudeAt w N k = binMagnitude w N k"
  by (simp add: magnitudeAt_def binMagnitude_def dftInner_sum power2_eq_square Let_def)

subsection \<open>Peak search and the flat window\<close>

lemma peakLoop_keep:
  "(\<And>j. i \<le> j \<Longrightarrow> j \<le> maxIndex \<Longrightarrow> 0 \<le> j \<Longrightarrow> nat j < length magnitudes \<Longrightarrow>
         magnitudes ! nat j \<le> maxMagnitude) \<Longrightarrow>
   peakLoop magnitudes i maxIndex (peakIndex, maxMagnitude) = (peakIndex, maxMagnitude)"
proof (induction "nat (maxIndex + 1 - i)" arbitrary: i)
  case 0
  then have "\<not> i \<le> maxIndex" by simp
  then show ?case by (subst peakLoop.simps) simp
next
  case (Suc d)
  then have le: "i \<le> maxIndex" by simp
  have no: "\<not> (0 \<le> i \<and> nat i < length magnitudes \<and> magnitudes ! nat i > maxMagnitude)"
    using Suc.prems [of i] le by fastforce
  have "peakLoop magnitudes (i + 1) maxIndex (peakIndex, maxMagnitude) = (peakIndex, maxMagnitude)"
    using Suc.hyps(2) Suc.prems by (intro Suc.hyps(1)) simp_all
  then show ?case
    by (subst peakLoop.simps) (simp only: le no if_True if_False)
qed

lemma peakLoop_zero:
  assumes "0 \<le> i" "i \<le> maxIndex" "nat i < n"
  shows "peakLoop (replicate n 0) i maxIndex (- 1, - 1) = (i, 0)"
proof -
  have "peakLoop (replicate n 0) i maxIndex (- 1, - 1) =
        peakLoop (replicate n 0) (i + 1) maxIndex (i, 0)"
    using assms by (subst peakLoop.simps) simp
  also have "\<dots> = (i, 0)"
    by (rule peakLoop_keep) simp
  finally show ?thesis .
qed

lemma foldl_min_replicate: "foldl min (c::real) (replicate n c) = c"
  by (induction n) simp_all

lemma foldl_max_replicate: "foldl max (c::real) (replicate n c) = c"
  by (induction n) simp_all

lemma mathMin_replicate: "0 < n \<Longrightarrow> mathMin (replicate n c) = Some c"
  by (cases n) (simp_all add: mathMin_def foldl_min_replicate)

lemma mathMax_replicate: "0 < n \<Longrightarrow> mathMax (replicate n c) = Some c"
  by (cases n) (simp_all add: mathMax_def foldl_max_replicate)

lemma findPeakIndex_flat: "findPeakIndex (replicate 600 0) = 15"
proof -
  have lo: "\<lfloor>(MIN_BPM / 60 * real (600::nat)) / real FPS\<rfloor> = 15"
    by (simp add: MIN_BPM_def FPS_def)
  have hi: "\<lceil>(MAX_BPM / 60 * real (600::nat)) / real FPS\<rceil> = 67"
    by (simp add: MAX_BPM_def FPS_def ceiling_eq_iff)
  have mags: "calculateMagnitudes (replicate 600 0) = replicate 300 0"
    by (simp add: calculateMagnitudes_zero)
  show ?thesis
    unfolding findPeakIndex_def Let_def
    by (simp only: length_replicate lo hi mags) (simp add: peakLoop_zero)
qed

lemma processWindow_flat:
  assumes "dataBuffer s = replicate 600 c"
  shows "processWindow s =
         s\<lparr>status := Processing, heartRate := heartRate s * 0.9 + 4.5,
           chartData := zip [0..<600] (replicate 600 0),
           yDomain := updateYDomain (yDomain s) 0 0\<rparr>"
proof -
  have filtered: "lowPassFilter (detrendSignal (replicate 600 c)) LOW_PASS_ALPHA = replicate 600 0"
    by (simp add: detrendSignal_replicate lowPassFilter_replicate)
  have chart: "map (\<lambda>(value, index). (index, value)) (zip (replicate 600 (0::real)) [0..<600]) =
               zip [0..<600] (replicate 600 0)"
    by (rule nth_equalityI) simp_all
  have hr: "updateHeartRate (heartRate s) 15 600 = heartRate s * 0.9 + 4.5"
    by (simp add: updateHeartRate_def FPS_def)
  show ?thesis
    unfolding processWindow_def Let_def assms filtered
    by (simp only: findPeakIndex_flat length_replicate chart hr)
       (simp add: mathMin_replicate mathMax_replicate)
qed

section \<open>Properties of the frame pass\<close>

lemma processWindow_dataBuffer: "dataBuffer (processWindow s) = dataBuffer s"
  by (simp add: processWindow_def Let_def split: option.splits)

lemma processWindow_lastRedAverage: "lastRedAverage (processWindow s) = lastRedAverage s"
  by (simp add: processWindow_def Let_def split: option.splits)

lemma processWindow_status: "status (processWindow s) = Processing"
  by (simp add: processWindow_def Let_def split: option.splits)

lemma processWindow_heartRate:
  "heartRate (processWindow s) =
   updateHeartRate (heartRate s)
     (findPeakIndex (lowPassFilter (detrendSignal (dataBuffer s)) LOW_PASS_ALPHA))
     (length (dataBuffer s))"
  by (simp add: processWindow_def Let_def lowPassFilter_length detrendSignal_length
      split: option.splits)

lemma processFrame_accepted:
  assumes "accepted s f"
  shows "processFrame s f =
         (let pushed = dataBuffer s @ [redAverage f];
              buffer = (if length pushed > BUFFER_SIZE then tl pushed else pushed);
              s1 = s\<lparr>lastRedAverage := Some (redAverage f), dataBuffer := buffer\<rparr>
          in if length buffer < BUFFER_SIZE
             then s1\<lparr>status :=
                      Calibrating (round ((real (length buffer) / real BUFFER_SIZE) * 100))\<rparr>
             else processWindow s1)"
  using assms unfolding accepted_def processFrame_def by (simp only: if_False)

lemma processFrame_accepted_buffer:
  assumes "accepted s f" "length (dataBuffer s) \<le> BUFFER_SIZE"
  shows "dataBuffer (processFrame s f) =
         drop (length (dataBuffer s) + 1 - BUFFER_SIZE) (dataBuffer s @ [redAverage f])"
proof (cases "length (dataBuffer s) = BUFFER_SIZE")
  case True
  then have "dataBuffer s \<noteq> []"
    by (auto simp: BUFFER_SIZE_eq)
  then show ?thesis
    using True
    by (simp add: processFrame_accepted [OF assms(1)] Let_def processWindow_dataBuffer drop_Suc
        BUFFER_SIZE_eq)
next
  case False
  then have "length (dataBuffer s) < BUFFER_SIZE" using assms(2) by simp
  then show ?thesis
    by (simp add: processFrame_accepted [OF assms(1)] Let_def processWindow_dataBuffer)
qed

lemma processFrame_calibrating:
  assumes "accepted s f" "length (dataBuffer s) + 1 < BUFFER_SIZE"
  shows "processFrame s f =
         s\<lparr>lastRedAverage := Some (redAverage f),
           dataBuffer := dataBuffer s @ [redAverage f],
           status := Calibrating
             (round ((real (length (dataBuffer s) + 1) / real BUFFER_SIZE) * 100))\<rparr>"
  using assms(2) by (simp add: processFrame_accepted [OF assms(1)] Let_def)

lemma processFrame_full:
  assumes "accepted s f" "length (dataBuffer s) \<le> BUFFER_SIZE"
    "length (dataBuffer (processFrame s f)) = BUFFER_SIZE"
  shows "processFrame s f =
         processWindow (s\<lparr>lastRedAverage := Some (redAverage f),
                          dataBuffer := dataBuffer (processFrame s f)\<rparr>)"
proof -
  have buf: "dataBuffer (processFrame s f) =
             drop (length (dataBuffer s) + 1 - BUFFER_SIZE) (dataBuffer s @ [redAverage f])"
    by (rule processFrame_accepted_buffer [OF assms(1,2)])
  have ge: "BUFFER_SIZE \<le> length (dataBuffer s) + 1"
    using assms(3) unfolding buf by simp
  show ?thesis
  proof (cases "length (dataBuffer s) = BUFFER_SIZE")
    case True
    then have "dataBuffer s \<noteq> []"
      by (auto simp: BUFFER_SIZE_eq)
    then show ?thesis
      unfolding buf using True
      by (simp add: processFrame_accepted [OF assms(1)] Let_def drop_Suc BUFFER_SIZE_eq)
  next
    case False
    then have "length (dataBuffer s) + 1 = BUFFER_SIZE" using ge assms(2) by simp
    then show ?thesis
      unfolding buf
      by (simp add: processFrame_accepted [OF assms(1)] Let_def)
  qed
qed

lemma drop_last_window:
  "drop (length (drop (length xs - b) xs @ ys) - b) (drop (length xs - b) xs @ ys) =
   drop (length (xs @ ys) - b) (xs @ (ys::'a list))"
proof (cases "length xs \<le> b")
  case True
  then show ?thesis by simp
next
  case False
  then have "drop (length xs - b) xs @ ys = drop (length xs - b) (xs @ ys)"
    by simp
  moreover have "length (drop (length xs - b) xs @ ys) - b + (length xs - b) = length (xs @ ys) - b"
    using False by simp
  ultimately show ?thesis
    by (simp only: drop_drop)
qed

lemma window_contents:
  "length (dataBuffer s) \<le> BUFFER_SIZE \<Longrightarrow> allAccepted s fs \<Longrightarrow>
   dataBuffer (foldl processFrame s fs) =
   drop (length (dataBuffer s @ map redAverage fs) - BUFFER_SIZE)
     (dataBuffer s @ map redAverage fs)"
proof (induction fs arbitrary: s)
  case Nil
  then show ?case by simp
next
  case (Cons f fs)
  then have acc: "accepted s f" and rest: "allAccepted (processFrame s f) fs"
    by simp_all
  have buf: "dataBuffer (processFrame s f) =
             drop (length (dataBuffer s @ [redAverage f]) - BUFFER_SIZE)
               (dataBuffer s @ [redAverage f])"
    using processFrame_accepted_buffer [OF acc Cons.prems(1)] by simp
  have len: "length (dataBuffer (processFrame s f)) \<le> BUFFER_SIZE"
    unfolding buf using Cons.prems(1) by simp
  have "dataBuffer (foldl processFrame (processFrame s f) fs) =
        drop (length (dataBuffer (processFrame s f) @ map redAverage fs) - BUFFER_SIZE)
          (dataBuffer (processFrame s f) @ map redAverage fs)"
    by (rule Cons.IH [OF len rest])
  also have "\<dots> = drop (length ((dataBuffer s @ [redAverage f]) @ map redAverage fs) - BUFFER_SIZE)
                     ((dataBuffer s @ [redAverage f]) @ map redAverage fs)"
    unfolding buf by (rule drop_last_window)
  finally show ?case by simp
qed

lemma windowInv_processFrame: "windowInv s \<Longrightarrow> windowInv (processFrame s f)"
proof -
  assume inv: "windowInv s"
  show ?thesis
  proof (cases "accepted s f")
    case True
    have le: "length (dataBuffer s) \<le> BUFFER_SIZE" using inv by (simp add: windowInv_def)
    show ?thesis
    proof (cases "length (dataBuffer s) + 1 < BUFFER_SIZE")
      case True
      then show ?thesis
        using inv by (simp add: processFrame_calibrating [OF \<open>accepted s f\<close> True] windowInv_def)
    next
      case False
      then have "length (dataBuffer (processFrame s f)) = BUFFER_SIZE"
        using le by (simp add: processFrame_accepted_buffer [OF \<open>accepted s f\<close> le])
      then show ?thesis by (simp add: windowInv_def)
    qed
  next
    case False
    then show ?thesis
      using inv
      by (auto simp: accepted_def processFrame_def windowInv_def split: option.splits)
  qed
qed

lemma windowInv_step: "windowInv s \<Longrightarrow> windowInv (step s e)"
proof (cases e)
  case (FramePass f)
  assume "windowInv s"
  then show ?thesis by (simp add: FramePass windowInv_processFrame)
next
  case FrameSkipped
  assume "windowInv s"
  then show ?thesis by (simp add: FrameSkipped)
next
  case (Start granted)
  assume "windowInv s"
  then show ?thesis
    by (simp add: Start startMonitoring_def windowInv_def Let_def)
next
  case Stop
  assume "windowInv s"
  then show ?thesis
    by (simp add: Stop stopMonitoring_def windowInv_def)
qed

lemma windowInv_run: "windowInv (run events)"
proof (induction events rule: rev_induct)
  case Nil
  then show ?case by (simp add: run_def initialState_def windowInv_def)
next
  case (snoc e es)
  then show ?case
    using windowInv_step [of "run es" e] by (simp add: run_def)
qed

subsection \<open>The flat-signal run\<close>

lemma run_snoc: "run (events @ [e]) = step (run events) e"
  by (simp add: run_def)

lemma run_Start_replicate_Suc:
  "run (Start g # replicate (Suc n) e) = step (run (Start g # replicate n e)) e"
proof -
  have "Start g # replicate (Suc n) e = (Start g # replicate n e) @ [e]"
    by (simp add: replicate_append_same)
  then show ?thesis by (simp only: run_snoc)
qed

lemma accepted_flat:
  "lastRedAverage s = None \<or> lastRedAverage s = Some 100 \<Longrightarrow> accepted s flatFrame"
  by (auto simp: accepted_def COVERAGE_STD_DEV_THRESHOLD_def MOTION_THRESHOLD_def)

lemma flat_fill:
  "n < 600 \<Longrightarrow>
   run (Start True # replicate n (FramePass flatFrame)) =
     \<lparr>isMonitoring = True, heartRate = 0, chartData = [],
      status = (if n = 0 then InitializingCamera
                else Calibrating (round ((real n / real BUFFER_SIZE) * 100))),
      error = None, yDomain = Auto, dataBuffer = replicate n 100,
      lastRedAverage = (if n = 0 then None else Some 100)\<rparr>"
proof (induction n)
  case 0
  show ?case by (simp add: run_def startMonitoring_def initialState_def)
next
  case (Suc n)
  let ?s = "run (Start True # replicate n (FramePass flatFrame))"
  have s: "?s = \<lparr>isMonitoring = True, heartRate = 0, chartData = [],
      status = (if n = 0 then InitializingCamera
                else Calibrating (round ((real n / real BUFFER_SIZE) * 100))),
      error = None, yDomain = Auto, dataBuffer = replicate n 100,
      lastRedAverage = (if n = 0 then None else Some 100)\<rparr>"
    using Suc by simp
  have acc: "accepted ?s flatFrame"
    by (rule accepted_flat) (simp add: s)
  have short: "length (dataBuffer ?s) + 1 < BUFFER_SIZE"
    using Suc.prems by (simp add: s BUFFER_SIZE_eq)
  have "run (Start True # replicate (Suc n) (FramePass flatFrame)) = processFrame ?s flatFrame"
    by (simp only: run_Start_replicate_Suc step.simps)
  also have "\<dots> = ?s\<lparr>lastRedAverage := Some (redAverage flatFrame),
           dataBuffer := dataBuffer ?s @ [redAverage flatFrame],
           status := Calibrating
             (round ((real (length (dataBuffer ?s) + 1) / real BUFFER_SIZE) * 100))\<rparr>"
    by (rule processFrame_calibrating [OF acc short])
  finally show ?case
    by (simp add: s replicate_append_same)
qed

lemma processFrame_flat_full:
  assumes "dataBuffer s = replicate 599 100 \<or> dataBuffer s = replicate 600 100"
    "lastRedAverage s = Some 100"
  shows "processFrame s flatFrame =
         s\<lparr>lastRedAverage := Some 100, dataBuffer := replicate 600 100,
           status := Processing, heartRate := heartRate s * 0.9 + 4.5,
           chartData := zip [0..<600] (replicate 600 0),
           yDomain := updateYDomain (yDomain s) 0 0\<rparr>"
proof -
  have acc: "accepted s flatFrame"
    by (rule accepted_flat) (simp add: assms)
  have tl600: "tl (replicate 600 (100::real) @ [100]) = replicate 600 100"
    by (simp add: replicate_append_same)
  have r600: "replicate 599 (100::real) @ [100] = replicate 600 100"
  proof -
    have "replicate (Suc 599) (100::real) = 100 # replicate 599 100"
      by (rule replicate_Suc)
    then show ?thesis by (simp add: replicate_append_same)
  qed
  have buf: "(let pushed = dataBuffer s @ [redAverage flatFrame]
              in if length pushed > BUFFER_SIZE then tl pushed else pushed) = replicate 600 100"
    using assms(1)
    by (auto simp: Let_def BUFFER_SIZE_eq r600 tl600)
  have "processFrame s flatFrame =
        processWindow (s\<lparr>lastRedAverage := Some 100, dataBuffer := replicate 600 100\<rparr>)"
    using buf by (simp add: processFrame_accepted [OF acc] Let_def BUFFER_SIZE_eq)
  also have "\<dots> = s\<lparr>lastRedAverage := Some 100, dataBuffer := replicate 600 100,
           status := Processing, heartRate := heartRate s * 0.9 + 4.5,
           chartData := zip [0..<600] (replicate 600 0),
           yDomain := updateYDomain (yDomain s) 0 0\<rparr>"
    by (subst processWindow_flat [where c = 100]) simp_all
  finally show ?thesis .
qed

lemma flat_full:
  "dataBuffer (run (Start True # replicate (600 + k) (FramePass flatFrame))) = replicate 600 100 \<and>
   lastRedAverage (run (Start True # replicate (600 + k) (FramePass flatFrame))) = Some 100 \<and>
   status (run (Start True # replicate (600 + k) (FramePass flatFrame))) = Processing \<and>
   heartRate (run (Start True # replicate (600 + k) (FramePass flatFrame))) =
     45 * (1 - (9 / 10) ^ Suc k)"
proof (induction k)
  case 0
  let ?s = "run (Start True # replicate 599 (FramePass flatFrame))"
  have s: "dataBuffer ?s = replicate 599 100" "lastRedAverage ?s = Some 100" "heartRate ?s = 0"
    by (simp_all add: flat_fill)
  have "run (Start True # replicate (Suc 599) (FramePass flatFrame)) = processFrame ?s flatFrame"
    by (simp only: run_Start_replicate_Suc step.simps)
  then have "run (Start True # replicate (600 + 0) (FramePass flatFrame)) = processFrame ?s flatFrame"
    by simp
  then show ?case
    using s by (simp add: processFrame_flat_full)
next
  case (Suc k)
  let ?s = "run (Start True # replicate (600 + k) (FramePass flatFrame))"
  have "run (Start True # replicate (Suc (600 + k)) (FramePass flatFrame)) = processFrame ?s flatFrame"
    by (simp only: run_Start_replicate_Suc step.simps)
  then have "run (Start True # replicate (600 + Suc k) (FramePass flatFrame)) = processFrame ?s flatFrame"
    by simp
  then show ?case
    using Suc by (simp add: processFrame_flat_full algebra_simps)
qed

subsection \<open>More on the helpers\<close>

lemma lowPassFilter_empty_iff: "lowPassFilter signal alpha = [] \<longleftrightarrow> signal = []"
  using lowPassFilter_length [of signal alpha] by (metis length_0_conv)

lemma lowPassLoop_nth:
  "1 \<le> i \<Longrightarrow> i \<le> length signal \<Longrightarrow> length filteredSignal = i \<Longrightarrow>
   (\<forall>j<i. lowPassLoop signal alpha i filteredSignal ! j = filteredSignal ! j) \<and>
   (\<forall>j. i \<le> j \<and> j < length signal \<longrightarrow>
        lowPassLoop signal alpha i filteredSignal ! j =
        alpha * signal ! j + (1 - alpha) * lowPassLoop signal alpha i filteredSignal ! (j - 1))"
proof (induction "length signal - i" arbitrary: i filteredSignal)
  case 0
  then have "\<not> i < length signal" by simp
  then show ?case
    using 0 by (subst (1 2 3) lowPassLoop.simps) simp
next
  case (Suc d)
  then have lt: "i < length signal" by simp
  let ?v = "alpha * signal ! i + (1 - alpha) * filteredSignal ! (i - 1)"
  let ?f = "filteredSignal @ [?v]"
  let ?r = "lowPassLoop signal alpha (i + 1) ?f"
  have unfold: "lowPassLoop signal alpha i filteredSignal = ?r"
    using lt Suc.prems by (subst lowPassLoop.simps) (simp add: arrayAssign_def)
  have IH: "(\<forall>j<i + 1. ?r ! j = ?f ! j) \<and>
            (\<forall>j. i + 1 \<le> j \<and> j < length signal \<longrightarrow>
                 ?r ! j = alpha * signal ! j + (1 - alpha) * ?r ! (j - 1))"
    using Suc.hyps(2) Suc.prems lt by (intro Suc.hyps(1)) simp_all
  have below: "?r ! j = filteredSignal ! j" if "j < i" for j
    using IH that Suc.prems by (simp add: nth_append)
  have at_i: "?r ! i = ?v"
    using IH Suc.prems by (simp add: nth_append)
  have prev: "?r ! (i - 1) = filteredSignal ! (i - 1)"
    using below [of "i - 1"] Suc.prems by simp
  have above: "?r ! j = alpha * signal ! j + (1 - alpha) * ?r ! (j - 1)"
    if "i \<le> j" "j < length signal" for j
  proof (cases "j = i")
    case True
    then show ?thesis using at_i prev by simp
  next
    case False
    then show ?thesis using IH that by simp
  qed
  show ?case
    unfolding unfold using below above by blast
qed

lemma lowPassFilter_recurrence:
  assumes "i < length signal"
  shows "lowPassFilter signal alpha ! i =
         (if i = 0 then signal ! 0
          else alpha * signal ! i + (1 - alpha) * lowPassFilter signal alpha ! (i - 1))"
proof -
  have ne: "length signal \<noteq> 0" using assms by (cases signal) simp_all
  have ge: "1 \<le> length signal" using assms by (cases signal) simp_all
  have loop: "lowPassFilter signal alpha = lowPassLoop signal alpha 1 [signal ! 0]"
    using ne by (simp add: lowPassFilter_def)
  have facts: "(\<forall>j<1. lowPassLoop signal alpha 1 [signal ! 0] ! j = [signal ! 0] ! j) \<and>
   (\<forall>j. 1 \<le> j \<and> j < length signal \<longrightarrow>
        lowPassLoop signal alpha 1 [signal ! 0] ! j =
        alpha * signal ! j + (1 - alpha) * lowPassLoop signal alpha 1 [signal ! 0] ! (j - 1))"
    using ge by (intro lowPassLoop_nth) simp_all
  show ?thesis
  proof (cases "i = 0")
    case True
    then show ?thesis using facts by (simp add: loop)
  next
    case False
    then have "1 \<le> i \<and> i < length signal" using assms by simp
    then show ?thesis using facts False unfolding loop by simp
  qed
qed


lemma calculateMagnitudes_odd:
  assumes "odd (length signal)"
  shows "length (calculateMagnitudes signal) = length signal div 2 + 1"
  using assms by (auto simp: calculateMagnitudes_length elim: oddE)


lemma hanning_123: "hanning [1, 2, 3] = [0, 2, 0]"
proof -
  have u: "[0..<3::nat] = [0, 1, 2]" by code_simp
  have c: "cos (2 * pi * 2 / 2) = 1" "cos (2 * pi / 2) = - 1"
    by simp_all
  show ?thesis
    by (simp add: hanning_def Let_def u c)
qed

lemma binMagnitude_020: "binMagnitude [0, 2, 0] 3 k = 2 / 3"
proof -
  have s: "{0..<3::nat} = {0, 1, 2}" by auto
  have factor: "(2 * c)\<^sup>2 + (2 * d)\<^sup>2 = 4 * (c\<^sup>2 + d\<^sup>2)" for c d :: real
    by (simp add: power2_eq_square algebra_simps)
  have "(2 * cos (2 * pi * real k / 3))\<^sup>2 + (2 * sin (2 * pi * real k / 3))\<^sup>2 =
        4 * ((cos (2 * pi * real k / 3))\<^sup>2 + (sin (2 * pi * real k / 3))\<^sup>2)"
    by (rule factor)
  also have "\<dots> = 2\<^sup>2" by simp
  finally have "sqrt ((2 * cos (2 * pi * real k / 3))\<^sup>2 + (2 * sin (2 * pi * real k / 3))\<^sup>2) = 2"
    by (simp only: real_sqrt_abs)
  then show ?thesis
    by (simp add: binMagnitude_def Let_def s)
qed

lemma calculateMagnitudes_123: "calculateMagnitudes [1, 2, 3] = [2 / 3, 2 / 3]"
proof (rule nth_equalityI)
  show "length (calculateMagnitudes [1, 2, 3]) = length [2 / 3, 2 / 3 :: real]"
    by (simp add: calculateMagnitudes_length)
next
  fix k assume "k < length (calculateMagnitudes [1, 2, 3])"
  then have k: "k < 2" by (simp add: calculateMagnitudes_length)
  have len: "length [1, 2, 3 :: real] = 3" by simp
  have "calculateMagnitudes [1, 2, 3] ! k = magnitudeAt (hanning [1, 2, 3]) (length [1, 2, 3 :: real]) k"
    using k by (intro calculateMagnitudes_nth) simp
  then have "calculateMagnitudes [1, 2, 3] ! k = magnitudeAt (hanning [1, 2, 3]) 3 k"
    by (simp only: len)
  also have "\<dots> = 2 / 3"
    by (simp only: magnitudeAt_binMagnitude hanning_123 binMagnitude_020)
  finally show "calculateMagnitudes [1, 2, 3] ! k = [2 / 3, 2 / 3] ! k"
    using k by (cases k) (simp_all add: less_Suc_eq)
qed

lemma peakLoop_found:
  "peakIndex \<noteq> - 1 \<Longrightarrow> 0 \<le> i \<Longrightarrow>
   fst (peakLoop magnitudes i maxIndex (peakIndex, maxMagnitude)) \<noteq> - 1"
proof (induction "nat (maxIndex + 1 - i)" arbitrary: i peakIndex maxMagnitude)
  case 0
  then have "\<not> i \<le> maxIndex" by simp
  then show ?case using 0 by (subst peakLoop.simps) simp
next
  case (Suc d)
  then have le: "i \<le> maxIndex" by simp
  have a: "fst (peakLoop magnitudes (i + 1) maxIndex (i, magnitudes ! nat i)) \<noteq> - 1"
    using Suc.hyps(2) Suc.prems by (intro Suc.hyps(1)) simp_all
  have b: "fst (peakLoop magnitudes (i + 1) maxIndex (peakIndex, maxMagnitude)) \<noteq> - 1"
    using Suc.hyps(2) Suc.prems by (intro Suc.hyps(1)) simp_all
  show ?case
    using le a b by (subst peakLoop.simps) simp
qed

lemma magnitudeAt_nonneg: "0 \<le> magnitudeAt w N k"
  by (simp add: magnitudeAt_def split: prod.splits)

lemma findPeakIndex_found:
  assumes "length filtered = BUFFER_SIZE"
  shows "findPeakIndex filtered \<noteq> - 1"
proof -
  let ?mags = "calculateMagnitudes filtered"
  have len: "length filtered = 600"
    using assms by (simp add: BUFFER_SIZE_eq)
  have lo: "\<lfloor>(MIN_BPM / 60 * real (600::nat)) / real FPS\<rfloor> = 15"
    by (simp add: MIN_BPM_def FPS_def)
  have hi: "\<lceil>(MAX_BPM / 60 * real (600::nat)) / real FPS\<rceil> = 67"
    by (simp add: MAX_BPM_def FPS_def ceiling_eq_iff)
  have mlen: "length ?mags = 300"
    by (simp add: calculateMagnitudes_length len)
  have "?mags ! 15 = magnitudeAt (hanning filtered) (length filtered) 15"
    by (rule calculateMagnitudes_nth) (simp add: len)
  then have pos: "- 1 < ?mags ! 15"
    using magnitudeAt_nonneg [of "hanning filtered" "length filtered" 15] by simp
  have "peakLoop ?mags 15 67 (- 1, - 1) = peakLoop ?mags (15 + 1) 67 (15, ?mags ! nat 15)"
    using pos mlen by (subst peakLoop.simps) simp
  moreover have "fst (peakLoop ?mags (15 + 1) 67 (15, ?mags ! nat 15)) \<noteq> - 1"
    by (rule peakLoop_found) simp_all
  ultimately have "fst (peakLoop ?mags 15 67 (- 1, - 1)) \<noteq> - 1"
    by simp
  then show ?thesis
    unfolding findPeakIndex_def Let_def len lo hi .
qed

lemma foldl_min_Min: "foldl min (y::real) ys = Min (set (y # ys))"
proof -
  have "foldl min y ys = fold min ys y"
    by (simp add: foldl_conv_fold min.commute)
  then show ?thesis by (simp only: Min.set_eq_fold)
qed

lemma foldl_max_Max: "foldl max (y::real) ys = Max (set (y # ys))"
proof -
  have "foldl max y ys = fold max ys y"
    by (simp add: foldl_conv_fold max.commute)
  then show ?thesis by (simp only: Max.set_eq_fold)
qed

lemma mathMin_Min: "xs \<noteq> [] \<Longrightarrow> mathMin xs = Some (Min (set xs))"
  by (cases xs) (simp_all add: mathMin_def foldl_min_Min del: set_simps)

lemma mathMax_Max: "xs \<noteq> [] \<Longrightarrow> mathMax xs = Some (Max (set xs))"
  by (cases xs) (simp_all add: mathMax_def foldl_max_Max del: set_simps)

lemma processWindow_yDomain:
  assumes "dataBuffer s \<noteq> []"
  shows "yDomain (processWindow s) =
         updateYDomain (yDomain s)
           (Min (set (lowPassFilter (detrendSignal (dataBuffer s)) LOW_PASS_ALPHA)))
           (Max (set (lowPassFilter (detrendSignal (dataBuffer s)) LOW_PASS_ALPHA)))"
proof -
  have "length (lowPassFilter (detrendSignal (dataBuffer s)) LOW_PASS_ALPHA) \<noteq> 0"
    using assms by (simp add: lowPassFilter_length detrendSignal_length)
  then have ne: "lowPassFilter (detrendSignal (dataBuffer s)) LOW_PASS_ALPHA \<noteq> []"
    by simp
  show ?thesis
    by (simp add: processWindow_def Let_def mathMin_Min [OF ne] mathMax_Max [OF ne])
qed

subsection \<open>The peak search finds the first largest bin of the band\<close>

lemma peakLoop_step:
  "i \<le> hi \<Longrightarrow>
   peakLoop mags i hi (p, m) =
     (if 0 \<le> i \<and> nat i < length mags \<and> mags ! nat i > m
      then peakLoop mags (i + 1) hi (i, mags ! nat i)
      else peakLoop mags (i + 1) hi (p, m))"
  by (subst peakLoop.simps) simp

lemma peakLoop_done: "\<not> i \<le> hi \<Longrightarrow> peakLoop mags i hi (p, m) = (p, m)"
  by (subst peakLoop.simps) simp

lemma peakLoop_scan:
  "peakLoop mags i hi (p, m) = (p', m') \<Longrightarrow>
   (p' = p \<and> m' = m \<and> (\<forall>j. i \<le> j \<and> bandIndex mags i hi j \<longrightarrow> mags ! nat j \<le> m)) \<or>
   (i \<le> p' \<and> bandIndex mags i hi p' \<and> m' = mags ! nat p' \<and> m < m' \<and>
    (\<forall>j. bandIndex mags i hi j \<longrightarrow> mags ! nat j \<le> m') \<and>
    (\<forall>j. bandIndex mags i hi j \<and> j < p' \<longrightarrow> mags ! nat j < m'))"
proof (induction "nat (hi + 1 - i)" arbitrary: i p m)
  case 0
  then have stop: "\<not> i \<le> hi" by simp
  then have "p' = p" "m' = m"
    using 0(2) by (simp_all add: peakLoop_done)
  then show ?case using stop by (auto simp: bandIndex_def)
next
  case (Suc d)
  then have le: "i \<le> hi" by simp
  have d: "d = nat (hi + 1 - (i + 1))" using Suc.hyps(2) by simp
  have split: "bandIndex mags i hi j \<longleftrightarrow> (j = i \<and> 0 \<le> i \<and> nat i < length mags) \<or> bandIndex mags (i + 1) hi j" for j
    using le by (auto simp: bandIndex_def)
  show ?case
  proof (cases "0 \<le> i \<and> nat i < length mags \<and> mags ! nat i > m")
    case True
    then have run: "peakLoop mags (i + 1) hi (i, mags ! nat i) = (p', m')"
      using Suc.prems le by (simp add: peakLoop_step)
    from Suc.hyps(1) [OF d run]
    consider (keep) "p' = i" "m' = mags ! nat i"
        "\<forall>j. i + 1 \<le> j \<and> bandIndex mags (i + 1) hi j \<longrightarrow> mags ! nat j \<le> mags ! nat i"
      | (later) "i + 1 \<le> p'" "bandIndex mags (i + 1) hi p'" "m' = mags ! nat p'" "mags ! nat i < m'"
        "\<forall>j. bandIndex mags (i + 1) hi j \<longrightarrow> mags ! nat j \<le> m'"
        "\<forall>j. bandIndex mags (i + 1) hi j \<and> j < p' \<longrightarrow> mags ! nat j < m'"
      by blast
    then show ?thesis
    proof cases
      case keep
      have "bandIndex mags i hi p'" using keep True le by (simp add: bandIndex_def)
      moreover have "\<forall>j. bandIndex mags i hi j \<longrightarrow> mags ! nat j \<le> m'"
      proof (intro allI impI)
        fix j assume j: "bandIndex mags i hi j"
        show "mags ! nat j \<le> m'"
        proof (cases "j = i")
          case True
          then show ?thesis using keep by simp
        next
          case False
          then have "i + 1 \<le> j \<and> bandIndex mags (i + 1) hi j"
            using j by (auto simp: bandIndex_def)
          then show ?thesis using keep by blast
        qed
      qed
      moreover have "\<forall>j. bandIndex mags i hi j \<and> j < p' \<longrightarrow> mags ! nat j < m'"
        using keep by (auto simp: bandIndex_def)
      ultimately show ?thesis using keep True by auto
    next
      case later
      have "bandIndex mags i hi p'" using later by (simp add: split)
      moreover have "\<forall>j. bandIndex mags i hi j \<longrightarrow> mags ! nat j \<le> m'"
        using later by (auto simp: split)
      moreover have "\<forall>j. bandIndex mags i hi j \<and> j < p' \<longrightarrow> mags ! nat j < m'"
        using later by (auto simp: split)
      moreover have "m < m'" using later True by simp
      moreover have "i \<le> p'" using later by simp
      ultimately show ?thesis using later by blast
    qed
  next
    case False
    have "peakLoop mags i hi (p, m) = peakLoop mags (i + 1) hi (p, m)"
      unfolding peakLoop_step [OF le] using False by (simp only: if_False)
    then have run: "peakLoop mags (i + 1) hi (p, m) = (p', m')"
      using Suc.prems by simp
    have here: "\<forall>j. j = i \<and> 0 \<le> i \<and> nat i < length mags \<longrightarrow> mags ! nat j \<le> m"
      using False by auto
    from Suc.hyps(1) [OF d run]
    consider (keep) "p' = p" "m' = m"
        "\<forall>j. i + 1 \<le> j \<and> bandIndex mags (i + 1) hi j \<longrightarrow> mags ! nat j \<le> m"
      | (later) "i + 1 \<le> p'" "bandIndex mags (i + 1) hi p'" "m' = mags ! nat p'" "m < m'"
        "\<forall>j. bandIndex mags (i + 1) hi j \<longrightarrow> mags ! nat j \<le> m'"
        "\<forall>j. bandIndex mags (i + 1) hi j \<and> j < p' \<longrightarrow> mags ! nat j < m'"
      by blast
    then show ?thesis
    proof cases
      case keep
      have "\<forall>j. i \<le> j \<and> bandIndex mags i hi j \<longrightarrow> mags ! nat j \<le> m"
      proof (intro allI impI)
        fix j assume j: "i \<le> j \<and> bandIndex mags i hi j"
        show "mags ! nat j \<le> m"
        proof (cases "j = i")
          case True
          then show ?thesis using here j by (simp add: bandIndex_def)
        next
          case False
          then have "i + 1 \<le> j \<and> bandIndex mags (i + 1) hi j"
            using j by (auto simp: bandIndex_def)
          then show ?thesis using keep by blast
        qed
      qed
      then show ?thesis using keep by blast
    next
      case later
      have "bandIndex mags i hi p'" using later by (simp add: split)
      moreover have "\<forall>j. bandIndex mags i hi j \<longrightarrow> mags ! nat j \<le> m'"
        using later here by (auto simp: split)
      moreover have "\<forall>j. bandIndex mags i hi j \<and> j < p' \<longrightarrow> mags ! nat j < m'"
        using later here by (auto simp: split)
      moreover have "i \<le> p'" using later by simp
      ultimately show ?thesis using later by blast
    qed
  qed
qed

lemma peakLoop_result:
  "(fst (peakLoop mags lo hi (- 1, - 1)) = - 1 \<and> noPeak mags lo hi) \<or>
   (fst (peakLoop mags lo hi (- 1, - 1)) \<noteq> - 1 \<and>
    winningBin mags lo hi (fst (peakLoop mags lo hi (- 1, - 1))))"
proof -
  obtain p' m' where run: "peakLoop mags lo hi (- 1, - 1) = (p', m')"
    by (cases "peakLoop mags lo hi (- 1, - 1)")
  from peakLoop_scan [OF run]
  consider (none) "p' = - 1" "\<forall>j. lo \<le> j \<and> bandIndex mags lo hi j \<longrightarrow> mags ! nat j \<le> - 1"
    | (some) "bandIndex mags lo hi p'" "m' = mags ! nat p'" "- 1 < m'"
        "\<forall>j. bandIndex mags lo hi j \<longrightarrow> mags ! nat j \<le> m'"
        "\<forall>j. bandIndex mags lo hi j \<and> j < p' \<longrightarrow> mags ! nat j < m'"
    by blast
  then show ?thesis
  proof cases
    case none
    then have "noPeak mags lo hi"
      by (fastforce simp: noPeak_def bandIndex_def)
    then show ?thesis using none run by simp
  next
    case some
    have "p' \<noteq> - 1" using some(1) by (auto simp: bandIndex_def)
    moreover have "winningBin mags lo hi p'"
      using some by (auto simp: winningBin_def)
    ultimately show ?thesis using run by simp
  qed
qed

lemma winningBin_unique:
  assumes "winningBin mags lo hi p" "winningBin mags lo hi q"
  shows "p = q"
proof (rule ccontr)
  assume ne: "p \<noteq> q"
  have bp: "bandIndex mags lo hi p" and bq: "bandIndex mags lo hi q"
    using assms by (simp_all add: winningBin_def)
  then have inp: "p \<in> {lo..hi}" and inq: "q \<in> {lo..hi}"
    by (simp_all add: bandIndex_def)
  show False
  proof (cases "p < q")
    case True
    then have "p \<in> {lo..<q}" using inp by simp
    then have "mags ! nat p < mags ! nat q"
      using assms(2) bp by (simp add: winningBin_def)
    moreover have "mags ! nat q \<le> mags ! nat p"
      using assms(1) bq inq by (simp add: winningBin_def)
    ultimately show False by simp
  next
    case False
    then have "q \<in> {lo..<p}" using inq ne by simp
    then have "mags ! nat q < mags ! nat p"
      using assms(1) bq by (simp add: winningBin_def)
    moreover have "mags ! nat p \<le> mags ! nat q"
      using assms(2) bp inp by (simp add: winningBin_def)
    ultimately show False by simp
  qed
qed

lemma winningBin_not_noPeak: "winningBin mags lo hi p \<Longrightarrow> \<not> noPeak mags lo hi"
  by (auto simp: winningBin_def noPeak_def bandIndex_def)

lemma winningBin_not_minus1: "winningBin mags lo hi p \<Longrightarrow> p \<noteq> - 1"
  by (auto simp: winningBin_def bandIndex_def)

lemma peakLoop_pinned:
  "(fst (peakLoop mags lo hi (- 1, - 1)) = p) =
   (if p = - 1 then noPeak mags lo hi else winningBin mags lo hi p)"
  using peakLoop_result [of mags lo hi] winningBin_unique [of mags lo hi]
    winningBin_not_noPeak [of mags lo hi] winningBin_not_minus1 [of mags lo hi]
  by (cases "p = - 1") metis+

lemma band_600:
  "\<lfloor>(MIN_BPM / 60 * real (600::nat)) / real FPS\<rfloor> = 15"
  "\<lceil>(MAX_BPM / 60 * real (600::nat)) / real FPS\<rceil> = 67"
  by (simp_all add: MIN_BPM_def MAX_BPM_def FPS_def ceiling_eq_iff)

lemma findPeakIndex_winning:
  assumes "length filtered = BUFFER_SIZE"
  shows "winningBin (calculateMagnitudes filtered) 15 67 (findPeakIndex filtered)"
proof -
  have len: "length filtered = 600" using assms by (simp add: BUFFER_SIZE_eq)
  have eq: "findPeakIndex filtered = fst (peakLoop (calculateMagnitudes filtered) 15 67 (- 1, - 1))"
    unfolding findPeakIndex_def Let_def len band_600 ..
  have "findPeakIndex filtered \<noteq> - 1" by (rule findPeakIndex_found [OF assms])
  then show ?thesis
    using peakLoop_result [of "calculateMagnitudes filtered" 15 67] unfolding eq by blast
qed

lemma peakLoop_example: "peakLoop [1, 3, 2, 3] 0 5 (- 1, - 1) = (1, 3)"
  by (simp add: peakLoop.simps)

lemma peakLoop_empty: "peakLoop [] 0 0 (- 1, - 1) = (- 1, - 1)"
  by (simp add: peakLoop.simps)

subsection \<open>The spectrum of a four-sample signal\<close>




lemma processed_length:
  "length (lowPassFilter (detrendSignal buffer) LOW_PASS_ALPHA) = length buffer"
  by (simp add: lowPassFilter_length detrendSignal_length)

subsection \<open>Concrete runs\<close>

lemma run_one_frame:
  "run [Start True, FramePass \<lparr>redAverage = 100, redStdDev = 2\<rparr>] =
   \<lparr>isMonitoring = True, heartRate = 0, chartData = [], status = Calibrating 0, error = None,
    yDomain = Auto, dataBuffer = [100], lastRedAverage = Some 100\<rparr>"
  by (simp add: run_def initialState_def startMonitoring_def processFrame_def Let_def
      COVERAGE_STD_DEV_THRESHOLD_def MOTION_THRESHOLD_def BUFFER_SIZE_eq round_def)

lemma run_two_frames:
  "run [Start True, FramePass \<lparr>redAverage = 100, redStdDev = 2\<rparr>,
        FramePass \<lparr>redAverage = 101, redStdDev = 16\<rparr>] =
   \<lparr>isMonitoring = True, heartRate = 0, chartData = [], status = Calibrating 0, error = None,
    yDomain = Auto, dataBuffer = [100, 101], lastRedAverage = Some 101\<rparr>"
  by (simp add: run_def initialState_def startMonitoring_def processFrame_def Let_def
      COVERAGE_STD_DEV_THRESHOLD_def MOTION_THRESHOLD_def BUFFER_SIZE_eq round_def)

lemma run_flat_Suc:
  "run (Start True # replicate (Suc n) (FramePass flatFrame)) =
   processFrame (run (Start True # replicate n (FramePass flatFrame))) flatFrame"
  by (simp only: run_Start_replicate_Suc step.simps)

lemma updateYDomain_flat:
  "updateYDomain Auto 0 0 = Bounded (- 1) 1"
  "updateYDomain (Bounded (- 1) 1) 0 0 = Bounded (- 1) 1"
  by (simp_all add: updateYDomain_def)

lemma flat_yDomain:
  "yDomain (run (Start True # replicate (600 + k) (FramePass flatFrame))) = Bounded (- 1) 1"
proof (induction k)
  case 0
  let ?s = "run (Start True # replicate 599 (FramePass flatFrame))"
  have s: "dataBuffer ?s = replicate 599 100" "lastRedAverage ?s = Some 100" "yDomain ?s = Auto"
    by (simp_all add: flat_fill)
  have "run (Start True # replicate (Suc 599) (FramePass flatFrame)) = processFrame ?s flatFrame"
    by (rule run_flat_Suc)
  then have "run (Start True # replicate (600 + 0) (FramePass flatFrame)) = processFrame ?s flatFrame"
    by simp
  then show ?case
    using s by (simp add: processFrame_flat_full updateYDomain_flat)
next
  case (Suc k)
  let ?s = "run (Start True # replicate (600 + k) (FramePass flatFrame))"
  have s: "dataBuffer ?s = replicate 600 100" "lastRedAverage ?s = Some 100"
    using flat_full [of k] by simp_all
  have "run (Start True # replicate (Suc (600 + k)) (FramePass flatFrame)) = processFrame ?s flatFrame"
    by (rule run_flat_Suc)
  then have "run (Start True # replicate (600 + Suc k) (FramePass flatFrame)) = processFrame ?s flatFrame"
    by simp
  then show ?case
    using s Suc by (simp add: processFrame_flat_full updateYDomain_flat)
qed

lemma flat_state_599:
  "accepted (run (Start True # replicate 599 (FramePass flatFrame))) flatFrame"
  "length (dataBuffer (run (Start True # replicate 599 (FramePass flatFrame)))) \<le> BUFFER_SIZE"
  "dataBuffer (processFrame (run (Start True # replicate 599 (FramePass flatFrame))) flatFrame) =
     replicate 600 100"
  "heartRate (run (Start True # replicate 599 (FramePass flatFrame))) = 0"
  "yDomain (run (Start True # replicate 599 (FramePass flatFrame))) = Auto"
proof -
  let ?s = "run (Start True # replicate 599 (FramePass flatFrame))"
  have s: "dataBuffer ?s = replicate 599 100" "lastRedAverage ?s = Some 100"
    by (simp_all add: flat_fill)
  show "accepted ?s flatFrame" by (rule accepted_flat) (simp add: s)
  show "length (dataBuffer ?s) \<le> BUFFER_SIZE" by (simp add: s BUFFER_SIZE_eq)
  show "dataBuffer (processFrame ?s flatFrame) = replicate 600 100"
    using s by (simp add: processFrame_flat_full)
  show "heartRate ?s = 0" by (simp add: flat_fill)
  show "yDomain ?s = Auto" by (simp add: flat_fill)
qed

lemma flat_state_600:
  "accepted (run (Start True # replicate 600 (FramePass flatFrame))) flatFrame"
  "length (dataBuffer (run (Start True # replicate 600 (FramePass flatFrame)))) \<le> BUFFER_SIZE"
  "dataBuffer (processFrame (run (Start True # replicate 600 (FramePass flatFrame))) flatFrame) =
     replicate 600 100"
  "heartRate (run (Start True # replicate 600 (FramePass flatFrame))) = 9 / 2"
  "yDomain (run (Start True # replicate 600 (FramePass flatFrame))) = Bounded (- 1) 1"
  "dataBuffer (run (Start True # replicate 600 (FramePass flatFrame))) = replicate 600 100"
  "lastRedAverage (run (Start True # replicate 600 (FramePass flatFrame))) = Some 100"
proof -
  let ?s = "run (Start True # replicate 600 (FramePass flatFrame))"
  have s: "dataBuffer ?s = replicate 600 100" "lastRedAverage ?s = Some 100"
    "heartRate ?s = 9 / 2"
    using flat_full [of 0] by simp_all
  show "accepted ?s flatFrame" by (rule accepted_flat) (simp add: s)
  show "length (dataBuffer ?s) \<le> BUFFER_SIZE" by (simp add: s BUFFER_SIZE_eq)
  show "dataBuffer (processFrame ?s flatFrame) = replicate 600 100"
    using s by (simp add: processFrame_flat_full)
  show "heartRate ?s = 9 / 2" by (rule s)
  show "yDomain ?s = Bounded (- 1) 1" using flat_yDomain [of 0] by simp
  show "dataBuffer ?s = replicate 600 100" by (rule s)
  show "lastRedAverage ?s = Some 100" by (rule s)
qed

lemma processed_flat:
  "lowPassFilter (detrendSignal (replicate 600 100)) LOW_PASS_ALPHA = replicate 600 0"
  by (simp add: detrendSignal_replicate lowPassFilter_replicate)

section \<open>The claims\<close>

text \<open>
  C1 (as amended). Flat-signal scenario: after the session starts, frames with constant
  \<open>redAverage = 100\<close> and \<open>redStdDev = 2\<close> are processed. While the window is filling
  (fewer than 600 frames) the heart rate is 0. From the 600th frame on the full pipeline
  runs on an all-zero processed signal: every magnitude is 0, and since the peak search
  starts from the maximum \<open>-1\<close> and compares strictly, it reports bin 15, the first bin of
  the band (45 BPM). So the smoother does update: the rate is 4.5 after the 600th frame
  and \<open>45 * (1 - 0.9 ^ (k + 1))\<close> after \<open>k\<close> more, and the status is then
  \<open>Processing...\<close>.
\<close>

theorem flat_signal_rate:
  "(\<forall>n<600. heartRate (run (Start True # replicate n (FramePass \<lparr>redAverage = 100, redStdDev = 2\<rparr>))) = 0) \<and>
   (\<forall>k. heartRate (run (Start True # replicate (600 + k) (FramePass \<lparr>redAverage = 100, redStdDev = 2\<rparr>))) =
          45 * (1 - (9 / 10) ^ Suc k)) \<and>
   status (run (Start True # replicate 600 (FramePass \<lparr>redAverage = 100, redStdDev = 2\<rparr>))) = Processing"
proof (intro conjI allI impI)
  fix n :: nat assume "n < 600"
  then show "heartRate (run (Start True # replicate n (FramePass flatFrame))) = 0"
    by (simp add: flat_fill)
next
  fix k
  show "heartRate (run (Start True # replicate (600 + k) (FramePass flatFrame))) =
        45 * (1 - (9 / 10) ^ Suc k)"
    using flat_full [of k] by simp
next
  show "status (run (Start True # replicate 600 (FramePass flatFrame))) = Processing"
    using flat_full [of 0] by simp
qed

text \<open>
  The statement above at 599 and at 600 frames.
\<close>

theorem flat_signal_rate_witness:
  "(599::nat) < 600 \<and>
   heartRate (run (Start True # replicate 599 (FramePass \<lparr>redAverage = 100, redStdDev = 2\<rparr>))) = 0 \<and>
   heartRate (run (Start True # replicate 600 (FramePass \<lparr>redAverage = 100, redStdDev = 2\<rparr>))) = 9 / 2"
proof -
  have a: "(599::nat) < 600" by simp
  note t = flat_signal_rate
  have b: "heartRate (run (Start True # replicate 599 (FramePass flatFrame))) = 0"
    using t a by blast
  have "heartRate (run (Start True # replicate (600 + 0) (FramePass flatFrame))) =
        45 * (1 - (9 / 10) ^ Suc 0)"
    using t by blast
  then have c: "heartRate (run (Start True # replicate 600 (FramePass flatFrame))) = 9 / 2"
    by simp
  show ?thesis using a b c by simp
qed

text \<open>
  C1 as stated fails: after the 600th flat frame the smoothed heart rate is not 0.
\<close>

theorem flat_signal_rate_nonzero:
  "heartRate (run (Start True # replicate 600 (FramePass \<lparr>redAverage = 100, redStdDev = 2\<rparr>))) \<noteq> 0"
  using flat_full [of 0] by simp

text \<open>
  C2. Coverage check of the quality gate, in any state a session can reach. A frame whose
  \<open>redStdDev\<close> is strictly greater than \<open>COVERAGE_STD_DEV_THRESHOLD = 16\<close> leaves the
  status \<open>Please cover the camera lens.\<close>, an empty sample window, heart rate 0, the
  \<open>auto\<close> range and no chart data, and does not touch the previous-average memory. (The
  code resets only when the window is non-empty; when it is empty, the invariant of the
  window says that rate, chart and range are already in their initial states.) A frame
  with \<open>redStdDev\<close> at or below the threshold does not take this branch: the status is
  not the coverage message and the previous-average memory becomes the frame's average.
\<close>

theorem coverage_check:
  "(redStdDev f > COVERAGE_STD_DEV_THRESHOLD \<longrightarrow>
      status (processFrame (run events) f) = PleaseCoverLens \<and>
      dataBuffer (processFrame (run events) f) = [] \<and>
      heartRate (processFrame (run events) f) = 0 \<and>
      yDomain (processFrame (run events) f) = Auto \<and>
      chartData (processFrame (run events) f) = [] \<and>
      lastRedAverage (processFrame (run events) f) = lastRedAverage (run events)) \<and>
   (redStdDev f \<le> COVERAGE_STD_DEV_THRESHOLD \<longrightarrow>
      status (processFrame (run events) f) \<noteq> PleaseCoverLens \<and>
      lastRedAverage (processFrame (run events) f) = Some (redAverage f)) \<and>
   COVERAGE_STD_DEV_THRESHOLD = 16"
proof (intro conjI impI)
  assume over: "redStdDev f > COVERAGE_STD_DEV_THRESHOLD"
  have inv: "windowInv (run events)" by (rule windowInv_run)
  have short: "dataBuffer (run events) = [] \<Longrightarrow>
      heartRate (run events) = 0 \<and> chartData (run events) = [] \<and> yDomain (run events) = Auto"
    using inv by (simp add: windowInv_def BUFFER_SIZE_eq)
  show "status (processFrame (run events) f) = PleaseCoverLens"
    using over by (simp add: processFrame_def)
  show "dataBuffer (processFrame (run events) f) = []"
    using over by (simp add: processFrame_def)
  show "heartRate (processFrame (run events) f) = 0"
    using over short by (simp add: processFrame_def)
  show "yDomain (processFrame (run events) f) = Auto"
    using over short by (simp add: processFrame_def)
  show "chartData (processFrame (run events) f) = []"
    using over short by (simp add: processFrame_def)
  show "lastRedAverage (processFrame (run events) f) = lastRedAverage (run events)"
    using over by (simp add: processFrame_def)
next
  assume le: "redStdDev f \<le> COVERAGE_STD_DEV_THRESHOLD"
  show "status (processFrame (run events) f) \<noteq> PleaseCoverLens"
    using le
    by (simp add: processFrame_def Let_def processWindow_status split: option.splits)
  show "lastRedAverage (processFrame (run events) f) = Some (redAverage f)"
    using le
    by (simp add: processFrame_def Let_def processWindow_lastRedAverage split: option.splits)
next
  show "COVERAGE_STD_DEV_THRESHOLD = 16" by (simp add: COVERAGE_STD_DEV_THRESHOLD_def)
qed

text \<open>
  The coverage check on the state reached by two accepted frames: a frame with deviation 17
  resets it, and the frame with deviation exactly 16 was accepted.
\<close>

theorem coverage_check_witness:
  "redStdDev \<lparr>redAverage = 101, redStdDev = 17\<rparr> > COVERAGE_STD_DEV_THRESHOLD \<and>
   processFrame
     (run [Start True, FramePass \<lparr>redAverage = 100, redStdDev = 2\<rparr>,
           FramePass \<lparr>redAverage = 101, redStdDev = 16\<rparr>])
     \<lparr>redAverage = 101, redStdDev = 17\<rparr> =
   \<lparr>isMonitoring = True, heartRate = 0, chartData = [], status = PleaseCoverLens, error = None,
    yDomain = Auto, dataBuffer = [], lastRedAverage = Some 101\<rparr> \<and>
   redStdDev \<lparr>redAverage = 101, redStdDev = 16\<rparr> \<le> COVERAGE_STD_DEV_THRESHOLD \<and>
   status (run [Start True, FramePass \<lparr>redAverage = 100, redStdDev = 2\<rparr>,
                FramePass \<lparr>redAverage = 101, redStdDev = 16\<rparr>]) = Calibrating 0"
proof -
  let ?es = "[Start True, FramePass \<lparr>redAverage = 100, redStdDev = 2\<rparr>]"
  let ?es2 = "[Start True, FramePass \<lparr>redAverage = 100, redStdDev = 2\<rparr>,
               FramePass \<lparr>redAverage = 101, redStdDev = 16\<rparr>]"
  let ?f = "\<lparr>redAverage = 101, redStdDev = 17\<rparr>"
  let ?g = "\<lparr>redAverage = 101, redStdDev = 16\<rparr>"
  have over: "redStdDev ?f > COVERAGE_STD_DEV_THRESHOLD"
    by (simp add: COVERAGE_STD_DEV_THRESHOLD_def)
  have le: "redStdDev ?g \<le> COVERAGE_STD_DEV_THRESHOLD"
    by (simp add: COVERAGE_STD_DEV_THRESHOLD_def)
  have a: "status (processFrame (run ?es2) ?f) = PleaseCoverLens \<and>
      dataBuffer (processFrame (run ?es2) ?f) = [] \<and>
      heartRate (processFrame (run ?es2) ?f) = 0 \<and>
      yDomain (processFrame (run ?es2) ?f) = Auto \<and>
      chartData (processFrame (run ?es2) ?f) = [] \<and>
      lastRedAverage (processFrame (run ?es2) ?f) = lastRedAverage (run ?es2)"
    using coverage_check [of ?f ?es2] over by blast
  have b: "status (processFrame (run ?es) ?g) \<noteq> PleaseCoverLens"
    using coverage_check [of ?g ?es] le by blast
  have c: "processFrame (run ?es2) ?f =
     \<lparr>isMonitoring = True, heartRate = 0, chartData = [], status = PleaseCoverLens, error = None,
      yDomain = Auto, dataBuffer = [], lastRedAverage = Some 101\<rparr>"
    using a by (simp add: run_two_frames processFrame_def COVERAGE_STD_DEV_THRESHOLD_def)
  show ?thesis
    using over le b c by (simp add: run_two_frames)
qed

text \<open>
  C3 (as amended). Motion check of the quality gate. For a frame that passes the coverage
  check (\<open>redStdDev \<le> 16\<close>), when a previous average exists and
  \<open>\<bar>redAverage - previous\<bar> > MOTION_THRESHOLD = 4\<close>, the pass sets the status
  \<open>Motion detected. Please hold still.\<close>, empties the sample window, resets heart rate,
  chart and range, appends no sample, and stores the frame's average as the previous
  average. The next frame that passes the coverage check is therefore compared with the
  post-jump value: it is a motion fault exactly when it differs from that value by more
  than the threshold, and otherwise it becomes the only sample of the window.
\<close>

theorem motion_check:
  assumes "redStdDev f \<le> COVERAGE_STD_DEV_THRESHOLD"
    and "lastRedAverage s = Some previous"
    and "\<bar>redAverage f - previous\<bar> > MOTION_THRESHOLD"
  shows "status (processFrame s f) = MotionDetected \<and>
         dataBuffer (processFrame s f) = [] \<and>
         heartRate (processFrame s f) = 0 \<and>
         yDomain (processFrame s f) = Auto \<and>
         chartData (processFrame s f) = [] \<and>
         lastRedAverage (processFrame s f) = Some (redAverage f) \<and>
         (\<forall>g. redStdDev g \<le> COVERAGE_STD_DEV_THRESHOLD \<longrightarrow>
              (status (processFrame (processFrame s f) g) = MotionDetected \<longleftrightarrow>
               \<bar>redAverage g - redAverage f\<bar> > MOTION_THRESHOLD) \<and>
              (\<bar>redAverage g - redAverage f\<bar> \<le> MOTION_THRESHOLD \<longrightarrow>
               dataBuffer (processFrame (processFrame s f) g) = [redAverage g])) \<and>
         MOTION_THRESHOLD = 4"
proof -
  have step: "processFrame s f =
        s\<lparr>status := MotionDetected, dataBuffer := [], heartRate := 0, chartData := [],
          yDomain := Auto, lastRedAverage := Some (redAverage f)\<rparr>"
    using assms by (simp add: processFrame_def)
  have next_frame:
    "(status (processFrame (processFrame s f) g) = MotionDetected \<longleftrightarrow>
        \<bar>redAverage g - redAverage f\<bar> > MOTION_THRESHOLD) \<and>
     (\<bar>redAverage g - redAverage f\<bar> \<le> MOTION_THRESHOLD \<longrightarrow>
        dataBuffer (processFrame (processFrame s f) g) = [redAverage g])"
    if "redStdDev g \<le> COVERAGE_STD_DEV_THRESHOLD" for g
    using that unfolding step
    by (simp add: processFrame_def Let_def BUFFER_SIZE_eq)
  show ?thesis
    using next_frame by (simp add: step MOTION_THRESHOLD_def)
qed

text \<open>
  A jump from 100 to 110, followed by a frame at 112: the jump resets the session and the
  frame at 112 is accepted against 110.
\<close>

theorem motion_check_witness:
  "redStdDev \<lparr>redAverage = 110, redStdDev = 2\<rparr> \<le> COVERAGE_STD_DEV_THRESHOLD \<and>
   lastRedAverage (run [Start True, FramePass \<lparr>redAverage = 100, redStdDev = 2\<rparr>]) = Some 100 \<and>
   \<bar>redAverage \<lparr>redAverage = 110, redStdDev = 2\<rparr> - 100\<bar> > MOTION_THRESHOLD \<and>
   processFrame (run [Start True, FramePass \<lparr>redAverage = 100, redStdDev = 2\<rparr>])
     \<lparr>redAverage = 110, redStdDev = 2\<rparr> =
   \<lparr>isMonitoring = True, heartRate = 0, chartData = [], status = MotionDetected, error = None,
    yDomain = Auto, dataBuffer = [], lastRedAverage = Some 110\<rparr> \<and>
   dataBuffer
     (processFrame
        (processFrame (run [Start True, FramePass \<lparr>redAverage = 100, redStdDev = 2\<rparr>])
           \<lparr>redAverage = 110, redStdDev = 2\<rparr>)
        \<lparr>redAverage = 112, redStdDev = 3\<rparr>) = [112]"
proof -
  let ?s = "run [Start True, FramePass \<lparr>redAverage = 100, redStdDev = 2\<rparr>]"
  let ?f = "\<lparr>redAverage = 110, redStdDev = 2\<rparr>"
  let ?g = "\<lparr>redAverage = 112, redStdDev = 3\<rparr>"
  have h1: "redStdDev ?f \<le> COVERAGE_STD_DEV_THRESHOLD"
    by (simp add: COVERAGE_STD_DEV_THRESHOLD_def)
  have h2: "lastRedAverage ?s = Some 100"
    by (simp add: run_one_frame)
  have h3: "\<bar>redAverage ?f - 100\<bar> > MOTION_THRESHOLD"
    by (simp add: MOTION_THRESHOLD_def)
  note t = motion_check [OF h1 h2 h3]
  have g1: "redStdDev ?g \<le> COVERAGE_STD_DEV_THRESHOLD"
    by (simp add: COVERAGE_STD_DEV_THRESHOLD_def)
  have g2: "\<bar>redAverage ?g - redAverage ?f\<bar> \<le> MOTION_THRESHOLD"
    by (simp add: MOTION_THRESHOLD_def)
  have nxt: "dataBuffer (processFrame (processFrame ?s ?f) ?g) = [redAverage ?g]"
    using t g1 g2 by blast
  have post: "processFrame ?s ?f =
     \<lparr>isMonitoring = True, heartRate = 0, chartData = [], status = MotionDetected, error = None,
      yDomain = Auto, dataBuffer = [], lastRedAverage = Some 110\<rparr>"
    using t by (simp add: run_one_frame processFrame_def COVERAGE_STD_DEV_THRESHOLD_def
        MOTION_THRESHOLD_def)
  show ?thesis
    using h1 h2 h3 nxt post by simp
qed

text \<open>
  C3 as stated fails for a frame that the coverage check rejects: the previous average
  is 100, the frame jumps to 110 with deviation 20, and the pass ends in the coverage
  branch, which leaves the previous-average memory at 100.
\<close>

theorem motion_check_behind_coverage:
  "lastRedAverage (run [Start True, FramePass \<lparr>redAverage = 100, redStdDev = 2\<rparr>]) = Some 100 \<and>
   \<bar>redAverage \<lparr>redAverage = 110, redStdDev = 20\<rparr> - 100\<bar> > MOTION_THRESHOLD \<and>
   status (processFrame (run [Start True, FramePass \<lparr>redAverage = 100, redStdDev = 2\<rparr>])
             \<lparr>redAverage = 110, redStdDev = 20\<rparr>) = PleaseCoverLens \<and>
   lastRedAverage (processFrame (run [Start True, FramePass \<lparr>redAverage = 100, redStdDev = 2\<rparr>])
             \<lparr>redAverage = 110, redStdDev = 20\<rparr>) = Some 100 \<and>
   lastRedAverage (processFrame (run [Start True, FramePass \<lparr>redAverage = 100, redStdDev = 2\<rparr>])
             \<lparr>redAverage = 110, redStdDev = 20\<rparr>) \<noteq>
     Some (redAverage \<lparr>redAverage = 110, redStdDev = 20\<rparr>)"
  by (simp add: run_one_frame processFrame_def COVERAGE_STD_DEV_THRESHOLD_def MOTION_THRESHOLD_def)



text \<open>
  C5. Detrender: a signal shorter than 3 is returned unchanged; the output always has the
  length of the input; and for a signal of length \<open>N \<ge> 3\<close>, output \<open>i\<close> is input \<open>i\<close>
  minus the arithmetic mean of the input over the clipped window
  \<open>[max 0 (i - 15), min (N - 1) (i + 15)]\<close>, 15 being \<open>\<lfloor>FPS / 2\<rfloor>\<close> for \<open>FPS = 30\<close>.
\<close>

theorem detrendSignal_local_mean:
  "(length signal < 3 \<longrightarrow> detrendSignal signal = signal) \<and>
   length (detrendSignal signal) = length signal \<and>
   (3 \<le> length signal \<longrightarrow>
      (\<forall>i<length signal.
         detrendSignal signal ! i =
         signal ! i -
         windowMean signal (max 0 (int i - int (FPS div 2)))
           (min (int (length signal) - 1) (int i + int (FPS div 2))))) \<and>
   FPS = 30"
proof (intro conjI impI allI)
  assume "length signal < 3"
  then show "detrendSignal signal = signal" by (simp add: detrendSignal_def)
next
  show "length (detrendSignal signal) = length signal" by (rule detrendSignal_length)
next
  fix i assume "3 \<le> length signal" "i < length signal"
  then show "detrendSignal signal ! i =
         signal ! i -
         windowMean signal (max 0 (int i - int (FPS div 2)))
           (min (int (length signal) - 1) (int i + int (FPS div 2)))"
    by (simp add: detrendSignal_nth movingAverageAt_windowMean FPS_def)
next
  show "FPS = 30" by (simp add: FPS_def)
qed

text \<open>
  On \<open>[1, 2]\<close> the detrender is the identity; on \<open>[1, 2, 3, 6]\<close> the window of index 1
  is the whole signal, with mean 3.
\<close>

theorem detrendSignal_local_mean_witness:
  "detrendSignal [1, 2] = [1, 2] \<and>
   length (detrendSignal [1, 2, 3, 6]) = 4 \<and>
   detrendSignal [1, 2, 3, 6] ! 1 = 2 - (1 + 2 + 3 + 6) / 4"
proof -
  note t = detrendSignal_local_mean [of "[1, 2]"] detrendSignal_local_mean [of "[1, 2, 3, 6]"]
  have wm: "windowMean [1, 2, 3, 6] 0 3 = 3"
    by code_simp
  have a: "detrendSignal [1, 2] = [1, 2]"
    using t(1) by simp
  have b: "length (detrendSignal [1, 2, 3, 6]) = 4"
    using t(2) by simp
  have "detrendSignal [1, 2, 3, 6] ! 1 =
        [1, 2, 3, 6] ! 1 - windowMean [1, 2, 3, 6] (max 0 (int 1 - int (FPS div 2)))
           (min (int (length [1, 2, 3, 6::real]) - 1) (int 1 + int (FPS div 2)))"
    using t(2) by simp
  also have "\<dots> = 2 - (1 + 2 + 3 + 6) / 4"
    by (simp add: FPS_def wm)
  finally show ?thesis using a b by simp
qed

text \<open>
  C6. Smoothing filter: the output is empty exactly when the input is; the output obeys
  \<open>y[0] = x[0]\<close>, \<open>y[i] = alpha * x[i] + (1 - alpha) * y[i - 1]\<close>; and a constant input
  is returned unchanged, every output being the constant.
\<close>

theorem lowPassFilter_constant:
  "(lowPassFilter signal alpha = [] \<longleftrightarrow> signal = []) \<and>
   length (lowPassFilter signal alpha) = length signal \<and>
   (\<forall>i<length signal.
      lowPassFilter signal alpha ! i =
      (if i = 0 then signal ! 0
       else alpha * signal ! i + (1 - alpha) * lowPassFilter signal alpha ! (i - 1))) \<and>
   lowPassFilter (replicate n c) alpha = replicate n c \<and>
   (\<forall>i<n. lowPassFilter (replicate n c) alpha ! i = c)"
  using lowPassFilter_recurrence [of _ signal alpha]
  by (simp add: lowPassFilter_empty_iff lowPassFilter_length lowPassFilter_replicate)

text \<open>
  The filter on \<open>[7, 7, 7]\<close> and on the empty signal.
\<close>

theorem lowPassFilter_constant_witness:
  "lowPassFilter [7, 7, 7] (1 / 2) = [7, 7, 7] \<and> (2::nat) < 3 \<and>
   lowPassFilter [7, 7, 7] (1 / 2) ! 2 = 7 \<and> lowPassFilter [] (1 / 2) = []"
proof -
  have r: "replicate 3 (7::real) = [7, 7, 7]"
    by (simp add: numeral_3_eq_3)
  show ?thesis
    using lowPassFilter_constant [of "[]" "1 / 2" 3 7] by (simp add: r)
qed

text \<open>
  C7. Rate smoother. On the smoother itself: with no peak (index \<open>-1\<close>) the rate is
  returned unchanged, neither updated nor reset; with a peak at bin \<open>p\<close> it becomes
  \<open>0.9 * r + 0.1 * b\<close>, \<open>b\<close> being the BPM of the bin (\<open>p\<close> times \<open>FPS\<close> over the number
  of samples, times 60). On the search: it reports \<open>p\<close> exactly when \<open>p\<close> is the winning
  bin of the band (largest magnitude, lowest index on ties), and \<open>-1\<close> exactly when the
  band holds no magnitude above \<open>-1\<close>. On a full-window cycle (an accepted frame after
  which the window holds \<open>BUFFER_SIZE\<close> samples) the band is bins 15 to 67, the search
  reports its winning bin, and the new rate is the smoother's result for that bin, that is
  \<open>0.9 * r + 0.1 * b\<close>.
\<close>

theorem rate_smoother_update:
  "updateHeartRate r (- 1) n = r \<and>
   (p \<noteq> - 1 \<longrightarrow>
      updateHeartRate r p n = 0.9 * r + 0.1 * (real_of_int p * real FPS / real n * 60)) \<and>
   (fst (peakLoop magnitudes lo hi (- 1, - 1)) = p) =
      (if p = - 1 then noPeak magnitudes lo hi else winningBin magnitudes lo hi p) \<and>
   (accepted s f \<and> length (dataBuffer s) \<le> BUFFER_SIZE \<and>
    length (dataBuffer (processFrame s f)) = BUFFER_SIZE \<longrightarrow>
      (let processed = lowPassFilter (detrendSignal (dataBuffer (processFrame s f))) LOW_PASS_ALPHA;
           peakIndex = findPeakIndex processed;
           b = real_of_int peakIndex * real FPS / real BUFFER_SIZE * 60
       in peakIndex = fst (peakLoop (calculateMagnitudes processed) 15 67 (- 1, - 1)) \<and>
          winningBin (calculateMagnitudes processed) 15 67 peakIndex \<and>
          heartRate (processFrame s f) = updateHeartRate (heartRate s) peakIndex BUFFER_SIZE \<and>
          heartRate (processFrame s f) = 0.9 * heartRate s + 0.1 * b))"
proof (intro conjI impI)
  show "updateHeartRate r (- 1) n = r"
    by (simp add: updateHeartRate_def)
next
  assume "p \<noteq> - 1"
  then show "updateHeartRate r p n = 0.9 * r + 0.1 * (real_of_int p * real FPS / real n * 60)"
    by (simp add: updateHeartRate_def Let_def algebra_simps)
next
  show "(fst (peakLoop magnitudes lo hi (- 1, - 1)) = p) =
      (if p = - 1 then noPeak magnitudes lo hi else winningBin magnitudes lo hi p)"
    by (rule peakLoop_pinned)
next
  assume h: "accepted s f \<and> length (dataBuffer s) \<le> BUFFER_SIZE \<and>
    length (dataBuffer (processFrame s f)) = BUFFER_SIZE"
  let ?processed = "lowPassFilter (detrendSignal (dataBuffer (processFrame s f))) LOW_PASS_ALPHA"
  let ?s1 = "s\<lparr>lastRedAverage := Some (redAverage f), dataBuffer := dataBuffer (processFrame s f)\<rparr>"
  have plen: "length ?processed = BUFFER_SIZE"
    using h by (simp add: lowPassFilter_length detrendSignal_length)
  have len: "length ?processed = 600" using plen by (simp add: BUFFER_SIZE_eq)
  have search: "findPeakIndex ?processed = fst (peakLoop (calculateMagnitudes ?processed) 15 67 (- 1, - 1))"
    unfolding findPeakIndex_def Let_def len band_600 ..
  have win: "winningBin (calculateMagnitudes ?processed) 15 67 (findPeakIndex ?processed)"
    by (rule findPeakIndex_winning [OF plen])
  have found: "findPeakIndex ?processed \<noteq> - 1"
    by (rule findPeakIndex_found [OF plen])
  have "processFrame s f = processWindow ?s1"
    using h by (intro processFrame_full) simp_all
  then have "heartRate (processFrame s f) = heartRate (processWindow ?s1)"
    by simp
  also have "\<dots> = updateHeartRate (heartRate s) (findPeakIndex ?processed) BUFFER_SIZE"
    using h by (simp add: processWindow_heartRate)
  finally have hr: "heartRate (processFrame s f) =
      updateHeartRate (heartRate s) (findPeakIndex ?processed) BUFFER_SIZE" .
  have hr2: "heartRate (processFrame s f) =
      0.9 * heartRate s + 0.1 * (real_of_int (findPeakIndex ?processed) * real FPS / real BUFFER_SIZE * 60)"
    unfolding hr using found by (simp add: updateHeartRate_def Let_def algebra_simps)
  show "let processed = ?processed;
           peakIndex = findPeakIndex processed;
           b = real_of_int peakIndex * real FPS / real BUFFER_SIZE * 60
       in peakIndex = fst (peakLoop (calculateMagnitudes processed) 15 67 (- 1, - 1)) \<and>
          winningBin (calculateMagnitudes processed) 15 67 peakIndex \<and>
          heartRate (processFrame s f) = updateHeartRate (heartRate s) peakIndex BUFFER_SIZE \<and>
          heartRate (processFrame s f) = 0.9 * heartRate s + 0.1 * b"
    unfolding Let_def using search win hr hr2 by blast
qed

text \<open>
  The smoother without a peak and with bin 2 of 4 samples; the search on the spectrum
  \<open>[1, 3, 2, 3]\<close>, where bin 1 wins over the first bin and over the later tie, and on an
  empty spectrum, where no peak is reported; and the 601st flat frame, where the rate
  goes from 4.5 to \<open>0.9 * 4.5 + 0.1 * 45\<close>.
\<close>

theorem rate_smoother_update_witness:
  "updateHeartRate 72 (- 1) 600 = 72 \<and>
   (2::int) \<noteq> - 1 \<and> updateHeartRate 60 2 4 = 0.9 * 60 + 0.1 * (2 * 30 / 4 * 60) \<and>
   fst (peakLoop [1, 3, 2, 3] 0 5 (- 1, - 1)) = 1 \<and> winningBin [1, 3, 2, 3] 0 5 1 \<and>
   fst (peakLoop [] 0 0 (- 1, - 1)) = - 1 \<and> noPeak [] 0 0 \<and>
   accepted (run (Start True # replicate 600 (FramePass \<lparr>redAverage = 100, redStdDev = 2\<rparr>)))
     \<lparr>redAverage = 100, redStdDev = 2\<rparr> \<and>
   length (dataBuffer (run (Start True # replicate 600 (FramePass \<lparr>redAverage = 100, redStdDev = 2\<rparr>))))
     \<le> BUFFER_SIZE \<and>
   length (dataBuffer (processFrame
       (run (Start True # replicate 600 (FramePass \<lparr>redAverage = 100, redStdDev = 2\<rparr>)))
       \<lparr>redAverage = 100, redStdDev = 2\<rparr>)) = BUFFER_SIZE \<and>
   heartRate (run (Start True # replicate 600 (FramePass \<lparr>redAverage = 100, redStdDev = 2\<rparr>))) = 9 / 2 \<and>
   winningBin (replicate 300 0) 15 67 15 \<and>
   heartRate (processFrame
       (run (Start True # replicate 600 (FramePass \<lparr>redAverage = 100, redStdDev = 2\<rparr>)))
       \<lparr>redAverage = 100, redStdDev = 2\<rparr>) = 0.9 * (9 / 2) + 0.1 * 45"
proof -
  let ?s = "run (Start True # replicate 600 (FramePass flatFrame))"
  have a: "updateHeartRate 72 (- 1) 600 = 72"
    using rate_smoother_update [where r = 72 and n = 600] by blast
  have b0: "(2::int) \<noteq> - 1" by simp
  have "updateHeartRate 60 2 4 = 0.9 * 60 + 0.1 * (real_of_int 2 * real FPS / real 4 * 60)"
    using rate_smoother_update [where r = 60 and n = 4 and p = 2] b0 by blast
  then have b: "updateHeartRate 60 2 4 = 0.9 * 60 + 0.1 * (2 * 30 / 4 * 60)"
    by (simp add: FPS_def)
  have c: "fst (peakLoop [1, 3, 2, 3] 0 5 (- 1, - 1)) = 1"
    by (simp add: peakLoop_example)
  have "(fst (peakLoop [1, 3, 2, 3] 0 5 (- 1, - 1)) = 1) =
        (if (1::int) = - 1 then noPeak [1, 3, 2, 3] 0 5 else winningBin [1, 3, 2, 3] 0 5 1)"
    using rate_smoother_update [where magnitudes = "[1, 3, 2, 3]" and lo = 0 and hi = 5 and p = 1]
    by blast
  then have d: "winningBin [1, 3, 2, 3] 0 5 1"
    using c by simp
  have e: "fst (peakLoop [] 0 0 (- 1, - 1)) = - 1"
    by (simp add: peakLoop_empty)
  have "(fst (peakLoop [] 0 0 (- 1, - 1)) = - 1) =
        (if (- 1::int) = - 1 then noPeak [] 0 0 else winningBin [] 0 0 (- 1))"
    using rate_smoother_update [where magnitudes = "[]" and lo = 0 and hi = 0 and p = "- 1"]
    by blast
  then have g: "noPeak [] 0 0"
    using e by simp
  have h1: "accepted ?s flatFrame" by (rule flat_state_600)
  have h2: "length (dataBuffer ?s) \<le> BUFFER_SIZE" by (rule flat_state_600)
  have h3: "length (dataBuffer (processFrame ?s flatFrame)) = BUFFER_SIZE"
    by (simp add: flat_state_600 BUFFER_SIZE_eq)
  have h4: "heartRate ?s = 9 / 2" by (rule flat_state_600)
  have pipe: "let processed = lowPassFilter (detrendSignal (dataBuffer (processFrame ?s flatFrame))) LOW_PASS_ALPHA;
           peakIndex = findPeakIndex processed;
           b = real_of_int peakIndex * real FPS / real BUFFER_SIZE * 60
       in peakIndex = fst (peakLoop (calculateMagnitudes processed) 15 67 (- 1, - 1)) \<and>
          winningBin (calculateMagnitudes processed) 15 67 peakIndex \<and>
          heartRate (processFrame ?s flatFrame) = updateHeartRate (heartRate ?s) peakIndex BUFFER_SIZE \<and>
          heartRate (processFrame ?s flatFrame) = 0.9 * heartRate ?s + 0.1 * b"
    using rate_smoother_update [where s = ?s and f = flatFrame] h1 h2 h3 by blast
  have mags: "calculateMagnitudes (replicate 600 0) = replicate 300 0"
    by (simp add: calculateMagnitudes_zero)
  have i: "winningBin (replicate 300 0) 15 67 15"
    using pipe unfolding Let_def
    by (simp add: flat_state_600 processed_flat findPeakIndex_flat mags)
  have j: "heartRate (processFrame ?s flatFrame) = 0.9 * (9 / 2) + 0.1 * 45"
    using pipe unfolding Let_def
    by (simp add: flat_state_600 processed_flat findPeakIndex_flat FPS_def BUFFER_SIZE_eq)
  show ?thesis
    using a b0 b c d e g h1 h2 h3 h4 i j by blast
qed

text \<open>
  C8. Sliding sample window. From a state whose window holds at most
  \<open>BUFFER_SIZE = FPS * WINDOW_SECONDS = 600\<close> samples, after any sequence of accepted
  frames the window holds the last \<open>BUFFER_SIZE\<close> of the old samples followed by the new
  ones, in arrival order: its length grows by one per frame up to \<open>BUFFER_SIZE\<close> and
  stays there, the oldest sample leaving first. An accepted frame that leaves the window
  below \<open>BUFFER_SIZE\<close> changes only the previous-average memory, the window and the
  status, which becomes \<open>Calibrating... (p%)\<close>: rate, chart and range are untouched.
\<close>

theorem sliding_window:
  assumes "length (dataBuffer s) \<le> BUFFER_SIZE"
    and "allAccepted s fs"
  shows "dataBuffer (foldl processFrame s fs) =
           drop (length (dataBuffer s) + length fs - BUFFER_SIZE) (dataBuffer s @ map redAverage fs) \<and>
         length (dataBuffer (foldl processFrame s fs)) =
           min (length (dataBuffer s) + length fs) BUFFER_SIZE \<and>
         (\<forall>f. accepted s f \<and> length (dataBuffer s) + 1 < BUFFER_SIZE \<longrightarrow>
            processFrame s f =
            s\<lparr>lastRedAverage := Some (redAverage f),
              dataBuffer := dataBuffer s @ [redAverage f],
              status := Calibrating
                (round ((real (length (dataBuffer s) + 1) / real BUFFER_SIZE) * 100))\<rparr>) \<and>
         BUFFER_SIZE = FPS * WINDOW_SECONDS \<and> BUFFER_SIZE = 600"
proof -
  have buf: "dataBuffer (foldl processFrame s fs) =
           drop (length (dataBuffer s) + length fs - BUFFER_SIZE) (dataBuffer s @ map redAverage fs)"
    using window_contents [OF assms] by simp
  have len: "length (dataBuffer (foldl processFrame s fs)) =
           min (length (dataBuffer s) + length fs) BUFFER_SIZE"
    unfolding buf using assms(1) by simp
  have const: "BUFFER_SIZE = FPS * WINDOW_SECONDS" "BUFFER_SIZE = 600"
    by (simp_all add: BUFFER_SIZE_def FPS_def WINDOW_SECONDS_def)
  have cal: "\<forall>f. accepted s f \<and> length (dataBuffer s) + 1 < BUFFER_SIZE \<longrightarrow>
            processFrame s f =
            s\<lparr>lastRedAverage := Some (redAverage f),
              dataBuffer := dataBuffer s @ [redAverage f],
              status := Calibrating
                (round ((real (length (dataBuffer s) + 1) / real BUFFER_SIZE) * 100))\<rparr>"
    by (intro allI impI processFrame_calibrating) simp_all
  show ?thesis
    using buf len cal const by blast
qed

text \<open>
  A full window of 600 samples takes one more and drops its oldest; the first frame of a
  session is appended with status \<open>Calibrating... (0%)\<close>.
\<close>

theorem sliding_window_witness:
  "length (dataBuffer (run (Start True # replicate 600 (FramePass \<lparr>redAverage = 100, redStdDev = 2\<rparr>))))
     \<le> BUFFER_SIZE \<and>
   allAccepted (run (Start True # replicate 600 (FramePass \<lparr>redAverage = 100, redStdDev = 2\<rparr>)))
     [\<lparr>redAverage = 101, redStdDev = 3\<rparr>] \<and>
   dataBuffer (foldl processFrame
       (run (Start True # replicate 600 (FramePass \<lparr>redAverage = 100, redStdDev = 2\<rparr>)))
       [\<lparr>redAverage = 101, redStdDev = 3\<rparr>]) = replicate 599 100 @ [101] \<and>
   length (dataBuffer (foldl processFrame
       (run (Start True # replicate 600 (FramePass \<lparr>redAverage = 100, redStdDev = 2\<rparr>)))
       [\<lparr>redAverage = 101, redStdDev = 3\<rparr>])) = 600 \<and>
   accepted initialState \<lparr>redAverage = 101, redStdDev = 3\<rparr> \<and>
   length (dataBuffer initialState) + 1 < BUFFER_SIZE \<and>
   processFrame initialState \<lparr>redAverage = 101, redStdDev = 3\<rparr> =
     initialState\<lparr>lastRedAverage := Some 101, dataBuffer := [101], status := Calibrating 0\<rparr>"
proof -
  let ?t = "run (Start True # replicate 600 (FramePass flatFrame))"
  let ?g = "\<lparr>redAverage = 101, redStdDev = 3\<rparr>"
  have h1: "length (dataBuffer ?t) \<le> BUFFER_SIZE" by (rule flat_state_600)
  have h2: "allAccepted ?t [?g]"
    by (simp add: accepted_def flat_state_600 COVERAGE_STD_DEV_THRESHOLD_def MOTION_THRESHOLD_def)
  have drop1: "drop (Suc 0) (replicate 600 (100::real)) = replicate 599 100"
    by simp
  have a: "dataBuffer (foldl processFrame ?t [?g]) = replicate 599 100 @ [101]"
    using sliding_window [OF h1 h2]
    by (simp add: flat_state_600 BUFFER_SIZE_eq)
  have b: "length (dataBuffer (foldl processFrame ?t [?g])) = 600"
    using sliding_window [OF h1 h2]
    by (simp add: flat_state_600 BUFFER_SIZE_eq)
  have i1: "length (dataBuffer initialState) \<le> BUFFER_SIZE"
    by (simp add: initialState_def)
  have i2: "allAccepted initialState []" by simp
  have i3: "accepted initialState ?g"
    by (simp add: accepted_def initialState_def COVERAGE_STD_DEV_THRESHOLD_def)
  have i4: "length (dataBuffer initialState) + 1 < BUFFER_SIZE"
    by (simp add: initialState_def BUFFER_SIZE_eq)
  have "processFrame initialState ?g =
     initialState\<lparr>lastRedAverage := Some (redAverage ?g),
       dataBuffer := dataBuffer initialState @ [redAverage ?g],
       status := Calibrating
         (round ((real (length (dataBuffer initialState) + 1) / real BUFFER_SIZE) * 100))\<rparr>"
    using sliding_window [OF i1 i2] i3 i4 by blast
  then have c: "processFrame initialState ?g =
     initialState\<lparr>lastRedAverage := Some 101, dataBuffer := [101], status := Calibrating 0\<rparr>"
    by (simp add: initialState_def BUFFER_SIZE_eq round_def)
  show ?thesis
    using h1 h2 a b i3 i4 c by blast
qed

text \<open>
  C9. Display scaler: on a full-window cycle, with \<open>m\<close> and \<open>M\<close> the minimum and maximum
  of the processed signal and \<open>pad = 0.1 * (M - m)\<close>, or 1 when the span is zero, the
  range becomes \<open>(m - pad, M + pad)\<close> when it was \<open>auto\<close>, and otherwise each bound is
  smoothed: \<open>bound * 0.98 + computed * 0.02\<close>.
\<close>

theorem display_scaler:
  assumes "accepted s f"
    and "length (dataBuffer s) \<le> BUFFER_SIZE"
    and "length (dataBuffer (processFrame s f)) = BUFFER_SIZE"
  shows "yDomain (processFrame s f) =
         (let processed = lowPassFilter (detrendSignal (dataBuffer (processFrame s f))) LOW_PASS_ALPHA;
              m = Min (set processed);
              M = Max (set processed);
              pad = (if M - m = 0 then 1 else 0.1 * (M - m))
          in case yDomain s of
               Auto \<Rightarrow> Bounded (m - pad) (M + pad)
             | Bounded lo hi \<Rightarrow>
                 Bounded (lo * 0.98 + (m - pad) * 0.02) (hi * 0.98 + (M + pad) * 0.02))"
proof -
  let ?s1 = "s\<lparr>lastRedAverage := Some (redAverage f), dataBuffer := dataBuffer (processFrame s f)\<rparr>"
  have ne: "dataBuffer ?s1 \<noteq> []"
    using assms(3) by (auto simp: BUFFER_SIZE_eq)
  have "processFrame s f = processWindow ?s1"
    by (rule processFrame_full [OF assms])
  then have "yDomain (processFrame s f) = yDomain (processWindow ?s1)"
    by simp
  also have "\<dots> = updateYDomain (yDomain s)
           (Min (set (lowPassFilter (detrendSignal (dataBuffer (processFrame s f))) LOW_PASS_ALPHA)))
           (Max (set (lowPassFilter (detrendSignal (dataBuffer (processFrame s f))) LOW_PASS_ALPHA)))"
    using processWindow_yDomain [OF ne] by simp
  finally show ?thesis
    unfolding updateYDomain_def Let_def by (auto simp: algebra_simps split: y_domain.splits)
qed

text \<open>
  The 600th flat frame adopts the range \<open>(-1, 1)\<close>; the 601st smooths it.
\<close>

theorem display_scaler_witness:
  "accepted (run (Start True # replicate 599 (FramePass \<lparr>redAverage = 100, redStdDev = 2\<rparr>)))
     \<lparr>redAverage = 100, redStdDev = 2\<rparr> \<and>
   length (dataBuffer (run (Start True # replicate 599 (FramePass \<lparr>redAverage = 100, redStdDev = 2\<rparr>))))
     \<le> BUFFER_SIZE \<and>
   length (dataBuffer (processFrame
       (run (Start True # replicate 599 (FramePass \<lparr>redAverage = 100, redStdDev = 2\<rparr>)))
       \<lparr>redAverage = 100, redStdDev = 2\<rparr>)) = BUFFER_SIZE \<and>
   yDomain (run (Start True # replicate 599 (FramePass \<lparr>redAverage = 100, redStdDev = 2\<rparr>))) = Auto \<and>
   yDomain (processFrame
       (run (Start True # replicate 599 (FramePass \<lparr>redAverage = 100, redStdDev = 2\<rparr>)))
       \<lparr>redAverage = 100, redStdDev = 2\<rparr>) = Bounded (0 - 1) (0 + 1) \<and>
   yDomain (processFrame
       (run (Start True # replicate 600 (FramePass \<lparr>redAverage = 100, redStdDev = 2\<rparr>)))
       \<lparr>redAverage = 100, redStdDev = 2\<rparr>) =
     Bounded (- 1 * 0.98 + (0 - 1) * 0.02) (1 * 0.98 + (0 + 1) * 0.02)"
proof -
  let ?s = "run (Start True # replicate 599 (FramePass flatFrame))"
  let ?t = "run (Start True # replicate 600 (FramePass flatFrame))"
  have h1: "accepted ?s flatFrame" by (rule flat_state_599)
  have h2: "length (dataBuffer ?s) \<le> BUFFER_SIZE" by (rule flat_state_599)
  have h3: "length (dataBuffer (processFrame ?s flatFrame)) = BUFFER_SIZE"
    by (simp add: flat_state_599 BUFFER_SIZE_eq)
  have k1: "accepted ?t flatFrame" by (rule flat_state_600)
  have k2: "length (dataBuffer ?t) \<le> BUFFER_SIZE" by (rule flat_state_600)
  have k3: "length (dataBuffer (processFrame ?t flatFrame)) = BUFFER_SIZE"
    by (simp add: flat_state_600 BUFFER_SIZE_eq)
  have a: "yDomain (processFrame ?s flatFrame) = Bounded (0 - 1) (0 + 1)"
    using display_scaler [OF h1 h2 h3]
    by (simp add: flat_state_599 processed_flat)
  have b: "yDomain (processFrame ?t flatFrame) =
           Bounded (- 1 * 0.98 + (0 - 1) * 0.02) (1 * 0.98 + (0 + 1) * 0.02)"
    using display_scaler [OF k1 k2 k3]
    by (simp add: flat_state_600 processed_flat)
  have h4: "yDomain ?s = Auto" by (rule flat_state_599)
  show ?thesis
    using h1 h2 h3 h4 a b by blast
qed

text \<open>
  C10. In every state reached from the initial state by frame passes, skipped passes,
  start and stop requests, a window of fewer than \<open>BUFFER_SIZE\<close> samples comes with heart
  rate 0, no chart data and the \<open>auto\<close> range.
\<close>

theorem short_window_state:
  "length (dataBuffer (run events)) < BUFFER_SIZE \<longrightarrow>
     heartRate (run events) = 0 \<and> chartData (run events) = [] \<and> yDomain (run events) = Auto"
  using windowInv_run [of events] by (simp add: windowInv_def)

text \<open>
  The state after a start and two accepted frames.
\<close>

theorem short_window_state_witness:
  "length (dataBuffer (run [Start True, FramePass \<lparr>redAverage = 100, redStdDev = 2\<rparr>,
        FramePass \<lparr>redAverage = 101, redStdDev = 16\<rparr>])) < BUFFER_SIZE \<and>
   heartRate (run [Start True, FramePass \<lparr>redAverage = 100, redStdDev = 2\<rparr>,
        FramePass \<lparr>redAverage = 101, redStdDev = 16\<rparr>]) = 0 \<and>
   chartData (run [Start True, FramePass \<lparr>redAverage = 100, redStdDev = 2\<rparr>,
        FramePass \<lparr>redAverage = 101, redStdDev = 16\<rparr>]) = [] \<and>
   yDomain (run [Start True, FramePass \<lparr>redAverage = 100, redStdDev = 2\<rparr>,
        FramePass \<lparr>redAverage = 101, redStdDev = 16\<rparr>]) = Auto"
proof -
  let ?es = "[Start True, FramePass \<lparr>redAverage = 100, redStdDev = 2\<rparr>,
        FramePass \<lparr>redAverage = 101, redStdDev = 16\<rparr>]"
  have h: "length (dataBuffer (run ?es)) < BUFFER_SIZE"
    by (simp add: run_two_frames BUFFER_SIZE_eq)
  show ?thesis
    using h short_window_state [of ?es] by blast
qed

end
